theory Spec2Isabelle
  imports Complex_Main "HOL-Library.Sublist"
begin

section \<open>Values of the Python program\<close>

text \<open>
  The module \<^verbatim>\<open>hurricane_tools/getvar.py\<close> has two classes: \<^verbatim>\<open>GetVar\<close>, a store of
  named fields with a cache, and \<^verbatim>\<open>Interpz3d\<close>, an interpolation context bound to a
  pressure field and target levels. Both work on numpy arrays and call compiled
  kernels. This section models the values they handle.

  A floating-point number is a finite value or the not-a-number marker. Finite values
  are exact reals here: rounding and the infinities are left out, and every statement
  below compares results of the same arithmetic.
\<close>

datatype fl = Num real | NaN

fun fadd :: "fl \<Rightarrow> fl \<Rightarrow> fl" where
  "fadd (Num a) (Num b) = Num (a + b)"
| "fadd _ _ = NaN"

fun fmul :: "fl \<Rightarrow> fl \<Rightarrow> fl" where
  "fmul (Num a) (Num b) = Num (a * b)"
| "fmul _ _ = NaN"

fun fdiv :: "fl \<Rightarrow> fl \<Rightarrow> fl" where
  "fdiv (Num a) (Num b) = (if b = 0 then NaN else Num (a / b))"
| "fdiv _ _ = NaN"

text \<open>A comparison with not-a-number is false.\<close>

fun flt :: "fl \<Rightarrow> fl \<Rightarrow> bool" where
  "flt (Num a) (Num b) = (a < b)"
| "flt _ _ = False"

datatype pyerr =
  ValueError string
| IndexError
| KeyError string
| TypeError
| OSError string
| KernelError string

subsection \<open>numpy arrays\<close>

text \<open>
  An array is its shape and its elements in C order (last axis fastest). numpy keeps
  \<open>length (data a) = prod_list (shape a)\<close>; the operations below are written through
  index tuples, so that their element-wise properties need no such side condition.
\<close>

record 'a ndarray =
  shape :: "nat list"
  data :: "'a list"

definition wf_arr :: "'a ndarray \<Rightarrow> bool" where
  "wf_arr a = (length (data a) = prod_list (shape a))"

text \<open>The position of an index tuple in C order, and the tuple of a position.\<close>

fun ravel :: "nat list \<Rightarrow> nat list \<Rightarrow> nat" where
  "ravel (n # ns) (i # is) = i * prod_list ns + ravel ns is"
| "ravel _ _ = 0"

fun unravel :: "nat list \<Rightarrow> nat \<Rightarrow> nat list" where
  "unravel [] j = []"
| "unravel (n # ns) j = (j div prod_list ns) # unravel ns (j mod prod_list ns)"

fun valid_index :: "nat list \<Rightarrow> nat list \<Rightarrow> bool" where
  "valid_index [] [] = True"
| "valid_index (n # ns) (i # is) = (i < n \<and> valid_index ns is)"
| "valid_index _ _ = False"

definition getitem :: "'a ndarray \<Rightarrow> nat list \<Rightarrow> 'a" where
  "getitem a idx = data a ! ravel (shape a) idx"

definition from_fun :: "nat list \<Rightarrow> (nat list \<Rightarrow> 'a) \<Rightarrow> 'a ndarray" where
  "from_fun shp f = \<lparr>shape = shp, data = map (\<lambda>j. f (unravel shp j)) [0..<prod_list shp]\<rparr>"

text \<open>Element-wise operations with a scalar: \<^verbatim>\<open>a + c\<close>, \<^verbatim>\<open>c * a\<close>, \<^verbatim>\<open>a / c\<close>, \<^verbatim>\<open>a < c\<close>, \<^verbatim>\<open>a == c\<close>.\<close>

definition map_arr :: "('a \<Rightarrow> 'b) \<Rightarrow> 'a ndarray \<Rightarrow> 'b ndarray" where
  "map_arr f a = from_fun (shape a) (\<lambda>idx. f (getitem a idx))"

definition add_scalar :: "fl ndarray \<Rightarrow> fl \<Rightarrow> fl ndarray" where
  "add_scalar a c = map_arr (\<lambda>x. fadd x c) a"

definition mul_scalar :: "fl \<Rightarrow> fl ndarray \<Rightarrow> fl ndarray" where
  "mul_scalar c a = map_arr (\<lambda>x. fmul c x) a"

definition div_scalar :: "fl ndarray \<Rightarrow> fl \<Rightarrow> fl ndarray" where
  "div_scalar a c = map_arr (\<lambda>x. fdiv x c) a"

definition lt_scalar :: "fl ndarray \<Rightarrow> fl \<Rightarrow> bool ndarray" where
  "lt_scalar a c = map_arr (\<lambda>x. flt x c) a"

definition eq_scalar :: "int ndarray \<Rightarrow> int \<Rightarrow> bool ndarray" where
  "eq_scalar a c = map_arr (\<lambda>x. x = c) a"

text \<open>
  \<^verbatim>\<open>a.T\<close> reverses the axes; \<^verbatim>\<open>np.squeeze\<close> drops the axes of length one.
  \<^verbatim>\<open>np.asfortranarray\<close> and \<^verbatim>\<open>np.asanyarray(order='c')\<close> change the memory layout
  only, which the model does not hold, so they are the identity on values.
\<close>

definition T :: "'a ndarray \<Rightarrow> 'a ndarray" where
  "T a = from_fun (rev (shape a)) (\<lambda>idx. getitem a (rev idx))"

definition squeeze :: "'a ndarray \<Rightarrow> 'a ndarray" where
  "squeeze a = a\<lparr>shape := filter (\<lambda>n. n \<noteq> 1) (shape a)\<rparr>"

definition asfortranarray :: "'a ndarray \<Rightarrow> 'a ndarray" where
  "asfortranarray a = a"

text \<open>
  Broadcasting of two shapes, aligned at the last axis: equal lengths agree, a length
  of one stretches, anything else is numpy's \<^verbatim>\<open>ValueError\<close>.
\<close>

fun broadcast_rev :: "nat list \<Rightarrow> nat list \<Rightarrow> pyerr + nat list" where
  "broadcast_rev [] ys = Inr ys"
| "broadcast_rev xs [] = Inr xs"
| "broadcast_rev (x # xs) (y # ys) =
     (if x = y \<or> y = 1 then
        (case broadcast_rev xs ys of Inl e \<Rightarrow> Inl e | Inr zs \<Rightarrow> Inr (x # zs))
      else if x = 1 then
        (case broadcast_rev xs ys of Inl e \<Rightarrow> Inl e | Inr zs \<Rightarrow> Inr (y # zs))
      else Inl (ValueError ''operands could not be broadcast together''))"

definition broadcast_shapes :: "nat list \<Rightarrow> nat list \<Rightarrow> pyerr + nat list" where
  "broadcast_shapes s t =
     (case broadcast_rev (rev s) (rev t) of Inl e \<Rightarrow> Inl e | Inr zs \<Rightarrow> Inr (rev zs))"

text \<open>The index into an operand of shape \<open>shp\<close> for an index of the broadcast result.\<close>

definition bidx :: "nat list \<Rightarrow> nat list \<Rightarrow> nat list" where
  "bidx shp idx =
     map2 (\<lambda>n i. if n = 1 then 0 else i) shp (drop (length idx - length shp) idx)"

definition np_add :: "fl ndarray \<Rightarrow> fl ndarray \<Rightarrow> pyerr + fl ndarray" where
  "np_add a b =
     (case broadcast_shapes (shape a) (shape b) of
        Inl e \<Rightarrow> Inl e
      | Inr s \<Rightarrow>
          Inr (from_fun s (\<lambda>idx. fadd (getitem a (bidx (shape a) idx))
                                       (getitem b (bidx (shape b) idx)))))"

text \<open>
  \<^verbatim>\<open>a += b\<close> and \<^verbatim>\<open>np.add(a, b, out=a)\<close> write the sum into \<open>a\<close>: the broadcast shape has
  to be the shape of \<open>a\<close>.
\<close>

definition np_add_out :: "fl ndarray \<Rightarrow> fl ndarray \<Rightarrow> pyerr + fl ndarray" where
  "np_add_out a b =
     (case np_add a b of
        Inl e \<Rightarrow> Inl e
      | Inr r \<Rightarrow>
          if shape r = shape a then Inr r
          else Inl (ValueError ''non-broadcastable output operand''))"

text \<open>
  \<^verbatim>\<open>a[mask] = v\<close> with a boolean mask: the mask covers the leading axes of \<open>a\<close> and has
  their lengths (numpy raises \<^verbatim>\<open>IndexError\<close> otherwise); every element whose leading
  index the mask selects becomes \<open>v\<close>.
\<close>

definition setmask :: "'a ndarray \<Rightarrow> bool ndarray \<Rightarrow> 'a \<Rightarrow> pyerr + 'a ndarray" where
  "setmask a m v =
     (if take (length (shape m)) (shape a) = shape m then
        Inr (from_fun (shape a)
               (\<lambda>idx. if getitem m (take (length (shape m)) idx) then v else getitem a idx))
      else Inl IndexError)"

subsection \<open>Python objects, slices and indexing along the first axis\<close>

text \<open>
  The arguments the two constructors inspect with \<^verbatim>\<open>isinstance\<close>: \<^verbatim>\<open>None\<close>, an \<^verbatim>\<open>int\<close>, a
  \<^verbatim>\<open>float\<close>, a \<^verbatim>\<open>slice\<close>, a numpy array, or an object of any other class (given by the name
  of its class; not a subclass of the former).
\<close>

datatype pyval =
  PNone
| PInt int
| PFloat fl
| PSlice "int option" "int option" "int option"
| PArray "fl ndarray"
| PIntArray "int ndarray"
| PObject string

text \<open>The \<^verbatim>\<open>isinstance\<close> tests of the module.\<close>

fun isinstance_int :: "pyval \<Rightarrow> bool" where
  "isinstance_int (PInt i) = True"
| "isinstance_int _ = False"

fun isinstance_float :: "pyval \<Rightarrow> bool" where
  "isinstance_float (PFloat x) = True"
| "isinstance_float _ = False"

fun isinstance_slice :: "pyval \<Rightarrow> bool" where
  "isinstance_slice (PSlice a b c) = True"
| "isinstance_slice _ = False"

fun isinstance_ndarray :: "pyval \<Rightarrow> bool" where
  "isinstance_ndarray (PArray a) = True"
| "isinstance_ndarray (PIntArray a) = True"
| "isinstance_ndarray _ = False"

text \<open>How an f-string prints \<^verbatim>\<open>type(x)\<close> (without the quotation marks around the class name).\<close>

fun type_repr :: "pyval \<Rightarrow> string" where
  "type_repr PNone = ''<class NoneType>''"
| "type_repr (PInt _) = ''<class int>''"
| "type_repr (PFloat _) = ''<class float>''"
| "type_repr (PSlice _ _ _) = ''<class slice>''"
| "type_repr (PArray _) = ''<class numpy.ndarray>''"
| "type_repr (PIntArray _) = ''<class numpy.ndarray>''"
| "type_repr (PObject c) = ''<class '' @ c @ ''>''"

text \<open>
  The indices a slice selects on an axis of length \<open>n\<close>, as \<^verbatim>\<open>slice.indices\<close> computes
  them: a missing step is one, a zero step is a \<^verbatim>\<open>ValueError\<close>, negative bounds count
  from the end, and bounds are clipped to the axis.
\<close>

definition slice_bound :: "int \<Rightarrow> int \<Rightarrow> int \<Rightarrow> int" where
  "slice_bound n step b =
     (if b < 0 then (if b + n < 0 then (if step < 0 then - 1 else 0) else b + n)
      else if b \<ge> n then (if step < 0 then n - 1 else n)
      else b)"

definition slice_indices :: "nat \<Rightarrow> int option \<Rightarrow> int option \<Rightarrow> int option \<Rightarrow> pyerr + nat list" where
  "slice_indices n start stop step =
     (let st = (case step of None \<Rightarrow> 1 | Some s \<Rightarrow> s) in
      if st = 0 then Inl (ValueError ''slice step cannot be zero'')
      else
        let lo = (case start of
                    None \<Rightarrow> (if st < 0 then int n - 1 else 0)
                  | Some b \<Rightarrow> slice_bound (int n) st b);
            hi = (case stop of
                    None \<Rightarrow> (if st < 0 then - 1 else int n)
                  | Some b \<Rightarrow> slice_bound (int n) st b);
            len = (if st > 0 then (if lo < hi then nat ((hi - lo - 1) div st + 1) else 0)
                   else (if hi < lo then nat ((lo - hi - 1) div (- st) + 1) else 0))
        in Inr (map (\<lambda>k. nat (lo + int k * st)) [0..<len]))"

text \<open>The \<open>j\<close>-th block along the first axis: the elements of \<open>a[j]\<close>.\<close>

definition row :: "'a ndarray \<Rightarrow> nat \<Rightarrow> 'a list" where
  "row a j = (let r = prod_list (tl (shape a)) in take r (drop (j * r) (data a)))"

text \<open>
  \<^verbatim>\<open>a[i]\<close> for an integer or a slice \<open>i\<close>, as a variable of the dataset is read for
  the time selection. An array without axes cannot be indexed; an integer out of range
  is an \<^verbatim>\<open>IndexError\<close>; \<^verbatim>\<open>None\<close> adds an axis. The constructor of \<^verbatim>\<open>GetVar\<close> admits no other
  index.
\<close>

fun index0 :: "'a ndarray \<Rightarrow> pyval \<Rightarrow> pyerr + 'a ndarray" where
  "index0 a (PInt i) =
     (case shape a of
        [] \<Rightarrow> Inl IndexError
      | n # ns \<Rightarrow>
          let j = (if i < 0 then i + int n else i) in
          if 0 \<le> j \<and> j < int n then Inr \<lparr>shape = ns, data = row a (nat j)\<rparr>
          else Inl IndexError)"
| "index0 a (PSlice start stop step) =
     (case shape a of
        [] \<Rightarrow> Inl IndexError
      | n # ns \<Rightarrow>
          (case slice_indices n start stop step of
             Inl e \<Rightarrow> Inl e
           | Inr js \<Rightarrow> Inr \<lparr>shape = length js # ns, data = concat (map (row a) js)\<rparr>))"
| "index0 a PNone = Inr (a\<lparr>shape := 1 # shape a\<rparr>)"
| "index0 a _ = Inl IndexError"

text \<open>
  \<^verbatim>\<open>wrf.destagger(var, stagger_dim)\<close>: the mean of neighbours along one axis,
  \<^verbatim>\<open>.5 * (var[..., :-1, ...] + var[..., 1:, ...])\<close>; the axis becomes one shorter.
\<close>

definition destagger :: "fl ndarray \<Rightarrow> int \<Rightarrow> pyerr + fl ndarray" where
  "destagger var stagger_dim =
     (let nd = int (length (shape var));
          ax = (if stagger_dim < 0 then stagger_dim + nd else stagger_dim)
      in if ax < 0 \<or> nd \<le> ax then Inl IndexError
         else
           let k = nat ax;
               shp = (shape var)[k := shape var ! k - 1]
           in Inr (from_fun shp
                     (\<lambda>idx. fmul (Num 0.5)
                        (fadd (getitem var idx) (getitem var (idx[k := Suc (idx ! k)]))))))"

section \<open>The collaborators: dataset and compiled kernels\<close>

text \<open>
  A dataset has named dimensions and named variables. The compiled kernels
  (\<^verbatim>\<open>fortran.f90tk\<close>, \<^verbatim>\<open>fortran.f90slp\<close>, \<^verbatim>\<open>fortran.f90interp\<close>) and \<^verbatim>\<open>netCDF4.Dataset\<close> are
  not part of the module: they are parameters of the model, functions of their
  arguments that return a new array or raise, and do not write to their arguments.
  Every call of one is recorded as an event,
  with its arguments, so that what a test observes through a stub (which kernel ran, how
  often, on which inputs) is a statement about the trace.
\<close>

record dataset =
  nc_dimensions :: "string \<rightharpoonup> nat"
  nc_variables :: "string \<rightharpoonup> fl ndarray"

datatype kernel =
  Calc_tk | Calc_tk_nd
| Dcomputeseaprs | Dcomputeseaprs_nt
| Find_level_1 | Find_level_n
| Interpz3d_1 | Interpz3d_n

record externals =
  Dataset :: "string \<Rightarrow> pyerr + dataset"
  calc_tk :: "fl ndarray \<Rightarrow> fl ndarray \<Rightarrow> pyerr + fl ndarray"
  calc_tk_nd :: "fl ndarray \<Rightarrow> fl ndarray \<Rightarrow> pyerr + fl ndarray"
  dcomputeseaprs ::
    "fl ndarray \<Rightarrow> fl ndarray \<Rightarrow> fl ndarray \<Rightarrow> fl ndarray \<Rightarrow> pyerr + fl ndarray"
  dcomputeseaprs_nt ::
    "fl ndarray \<Rightarrow> fl ndarray \<Rightarrow> fl ndarray \<Rightarrow> fl ndarray \<Rightarrow> pyerr + fl ndarray"
  find_level_1 :: "fl ndarray \<Rightarrow> pyval \<Rightarrow> pyerr + int ndarray"
  find_level_n :: "fl ndarray \<Rightarrow> pyval \<Rightarrow> pyerr + int ndarray"
  interpz3d_1 :: "fl ndarray \<Rightarrow> fl ndarray \<Rightarrow> pyval \<Rightarrow> int ndarray \<Rightarrow> pyerr + fl ndarray"
  interpz3d_n :: "fl ndarray \<Rightarrow> fl ndarray \<Rightarrow> pyval \<Rightarrow> int ndarray \<Rightarrow> pyerr + fl ndarray"

datatype event =
  Ev_open string
| Ev_read string pyval
| Ev_call kernel "pyval list"

text \<open>
  Calling the function a name is bound to. A kernel called with the wrong number of
  arguments is Python's \<^verbatim>\<open>TypeError\<close>.
\<close>

fun call_tk :: "externals \<Rightarrow> kernel \<Rightarrow> fl ndarray \<Rightarrow> fl ndarray \<Rightarrow> pyerr + fl ndarray" where
  "call_tk K Calc_tk p th = calc_tk K p th"
| "call_tk K Calc_tk_nd p th = calc_tk_nd K p th"
| "call_tk K _ p th = Inl TypeError"

fun call_slp ::
  "externals \<Rightarrow> kernel \<Rightarrow> fl ndarray \<Rightarrow> fl ndarray \<Rightarrow> fl ndarray \<Rightarrow> fl ndarray \<Rightarrow> pyerr + fl ndarray"
where
  "call_slp K Dcomputeseaprs ph tk p q = dcomputeseaprs K ph tk p q"
| "call_slp K Dcomputeseaprs_nt ph tk p q = dcomputeseaprs_nt K ph tk p q"
| "call_slp K _ ph tk p q = Inl TypeError"

fun call_find_level :: "externals \<Rightarrow> kernel \<Rightarrow> fl ndarray \<Rightarrow> pyval \<Rightarrow> pyerr + int ndarray" where
  "call_find_level K Find_level_1 p l = find_level_1 K p l"
| "call_find_level K Find_level_n p l = find_level_n K p l"
| "call_find_level K _ p l = Inl TypeError"

fun call_interpz3d ::
  "externals \<Rightarrow> kernel \<Rightarrow> fl ndarray \<Rightarrow> fl ndarray \<Rightarrow> pyval \<Rightarrow> int ndarray \<Rightarrow> pyerr + fl ndarray"
where
  "call_interpz3d K Interpz3d_1 v p l ix = interpz3d_1 K v p l ix"
| "call_interpz3d K Interpz3d_n v p l ix = interpz3d_n K v p l ix"
| "call_interpz3d K _ v p l ix = Inl TypeError"

section \<open>The class GetVar\<close>

text \<open>
  An instance holds the cache \<^verbatim>\<open>self.variables\<close>, the file name, the open dataset, the time
  selection and the two kernels chosen at construction (\<^verbatim>\<open>self._func\<close>). numpy arrays
  are mutable objects and the cache holds references to them, so the model carries the
  memory too: \<open>heap\<close> lists the array objects created so far, an address is a position
  in it, and the cache maps a name to an address. An in-place operation
  (\<^verbatim>\<open>+=\<close>, \<^verbatim>\<open>a[mask] = v\<close>, \<^verbatim>\<open>out=\<close>) overwrites the object at its address; \<^verbatim>\<open>.copy()\<close> creates a
  new object. Arrays that are only read after their creation (results of \<^verbatim>\<open>+\<close>,
  \<^verbatim>\<open>squeeze\<close>, \<^verbatim>\<open>.T\<close>) are plain values. \<open>trace\<close> lists the dataset reads and kernel
  calls made so far. The method \<^verbatim>\<open>close\<close> is not modelled: an instance here is open.
\<close>

type_synonym addr = nat

record GetVar =
  variables :: "string \<rightharpoonup> addr"
  filename :: string
  ncfile :: dataset
  timeidx :: pyval
  func :: "string \<rightharpoonup> kernel"
  heap :: "fl ndarray list"
  trace :: "event list"

definition alloc :: "GetVar \<Rightarrow> fl ndarray \<Rightarrow> addr \<times> GetVar" where
  "alloc self v = (length (heap self), self\<lparr>heap := heap self @ [v]\<rparr>)"

definition store :: "GetVar \<Rightarrow> addr \<Rightarrow> fl ndarray \<Rightarrow> GetVar" where
  "store self a v = self\<lparr>heap := (heap self)[a := v]\<rparr>"

definition emit :: "GetVar \<Rightarrow> event \<Rightarrow> GetVar" where
  "emit self ev = self\<lparr>trace := trace self @ [ev]\<rparr>"

text \<open>
  \<^verbatim>\<open>__init__(filename, timeidx=None)\<close>. The dataset is opened first; then the time
  selection is checked; then the kernels are chosen by the length of the dimension
  \<^verbatim>\<open>Time\<close>. The result comes with the events of the construction.
\<close>

definition GetVar_init :: "externals \<Rightarrow> string \<Rightarrow> pyval \<Rightarrow> (pyerr + GetVar) \<times> event list" where
  "GetVar_init K fname tidx =
     (let evs = [Ev_open fname] in
      case Dataset K fname of
        Inl e \<Rightarrow> (Inl e, evs)
      | Inr nc \<Rightarrow>
          (case (if tidx = PNone then Inr (PSlice (Some 0) None None)
                 else if isinstance_slice tidx \<or> isinstance_int tidx then Inr tidx
                 else Inl (ValueError (''Unavailable timeidx type: '' @ type_repr tidx))) of
             Inl e \<Rightarrow> (Inl e, evs)
           | Inr ti \<Rightarrow>
               (case nc_dimensions nc ''Time'' of
                  None \<Rightarrow> (Inl (KeyError ''Time''), evs)
                | Some n \<Rightarrow>
                    (Inr \<lparr>variables = Map.empty, filename = fname, ncfile = nc, timeidx = ti,
                          func = (if n = 1
                                  then [''tk'' \<mapsto> Calc_tk, ''slp'' \<mapsto> Dcomputeseaprs]
                                  else [''tk'' \<mapsto> Calc_tk_nd, ''slp'' \<mapsto> Dcomputeseaprs_nt]),
                          heap = [], trace = evs\<rparr>, evs))))"

text \<open>
  \<^verbatim>\<open>get\<close> and the three recipes call each other. Each returns the address of the
  array or the exception raised, and the instance as the call left it (what an
  exception leaves behind included).
\<close>

function
  GetVar_tk :: "externals \<Rightarrow> GetVar \<Rightarrow> kernel \<Rightarrow> (pyerr + addr) \<times> GetVar" and
  GetVar_slp :: "externals \<Rightarrow> GetVar \<Rightarrow> kernel \<Rightarrow> (pyerr + addr) \<times> GetVar" and
  GetVar_pres :: "externals \<Rightarrow> GetVar \<Rightarrow> (pyerr + addr) \<times> GetVar" and
  GetVar_get :: "externals \<Rightarrow> GetVar \<Rightarrow> string \<Rightarrow> (pyerr + addr) \<times> GetVar"
where
  "GetVar_tk K self func_tk =
     (case GetVar_get K self ''P'' of
        (Inl e, s1) \<Rightarrow> (Inl e, s1)
      | (Inr p, s1) \<Rightarrow>
     (case GetVar_get K s1 ''PB'' of
        (Inl e, s2) \<Rightarrow> (Inl e, s2)
      | (Inr pb, s2) \<Rightarrow>
     (case np_add (heap s2 ! p) (heap s2 ! pb) of
        Inl e \<Rightarrow> (Inl e, s2)
      | Inr ppb \<Rightarrow>
     (case GetVar_get K s2 ''T'' of
        (Inl e, s3) \<Rightarrow> (Inl e, s3)
      | (Inr t, s3) \<Rightarrow>
          (let theta = squeeze (add_scalar (heap s3 ! t) (Num 300));
               pres_f = asfortranarray (T (squeeze ppb));
               theta_f = asfortranarray (T theta);
               s4 = emit s3 (Ev_call func_tk [PArray pres_f, PArray theta_f])
           in case call_tk K func_tk pres_f theta_f of
                Inl e \<Rightarrow> (Inl e, s4)
              | Inr tk \<Rightarrow> (case alloc s4 (T tk) of (a, s5) \<Rightarrow> (Inr a, s5)))))))"
| "GetVar_slp K self func_slp =
     (case GetVar_get K self ''P'' of
        (Inl e, s1) \<Rightarrow> (Inl e, s1)
      | (Inr p0, s1) \<Rightarrow>
     (case alloc s1 (heap s1 ! p0) of (p, s2) \<Rightarrow>
     (case GetVar_get K s2 ''PB'' of
        (Inl e, s3) \<Rightarrow> (Inl e, s3)
      | (Inr pb, s3) \<Rightarrow>
     (case GetVar_get K s3 ''QVAPOR'' of
        (Inl e, s4) \<Rightarrow> (Inl e, s4)
      | (Inr q0, s4) \<Rightarrow>
     (case alloc s4 (heap s4 ! q0) of (qvapor, s5) \<Rightarrow>
     (case GetVar_get K s5 ''PH'' of
        (Inl e, s6) \<Rightarrow> (Inl e, s6)
      | (Inr ph0, s6) \<Rightarrow>
     (case alloc s6 (heap s6 ! ph0) of (ph, s7) \<Rightarrow>
     (case GetVar_get K s7 ''PHB'' of
        (Inl e, s8) \<Rightarrow> (Inl e, s8)
      | (Inr phb, s8) \<Rightarrow>
     (case GetVar_get K s8 ''tk'' of
        (Inl e, s9) \<Rightarrow> (Inl e, s9)
      | (Inr tk, s9) \<Rightarrow>
     (case np_add_out (heap s9 ! p) (heap s9 ! pb) of
        Inl e \<Rightarrow> (Inl e, s9)
      | Inr v \<Rightarrow>
     (let s10 = store s9 p v in
      case setmask (heap s10 ! qvapor) (lt_scalar (heap s10 ! qvapor) (Num 0)) (Num 0) of
        Inl e \<Rightarrow> (Inl e, s10)
      | Inr v \<Rightarrow>
     (let s11 = store s10 qvapor v in
      case np_add_out (heap s11 ! ph) (heap s11 ! phb) of
        Inl e \<Rightarrow> (Inl e, s11)
      | Inr v \<Rightarrow>
     (let s12 = store s11 ph v;
          s13 = store s12 ph (div_scalar (heap s12 ! ph) (Num 9.81))
      in case destagger (heap s13 ! ph) (- 3) of
        Inl e \<Rightarrow> (Inl e, s13)
      | Inr ph_d \<Rightarrow>
          (let ph_f = asfortranarray (T (squeeze ph_d));
               p_f = asfortranarray (T (squeeze (heap s13 ! p)));
               qvapor_f = asfortranarray (T (squeeze (heap s13 ! qvapor)));
               tk_f = asfortranarray (T (heap s13 ! tk));
               s14 = emit s13
                 (Ev_call func_slp [PArray ph_f, PArray tk_f, PArray p_f, PArray qvapor_f])
           in case call_slp K func_slp ph_f tk_f p_f qvapor_f of
                Inl e \<Rightarrow> (Inl e, s14)
              | Inr slp \<Rightarrow> (case alloc s14 (T slp) of (a, s15) \<Rightarrow> (Inr a, s15))))))))))))))))"
| "GetVar_pres K self =
     (case GetVar_get K self ''P'' of
        (Inl e, s1) \<Rightarrow> (Inl e, s1)
      | (Inr p, s1) \<Rightarrow>
     (case GetVar_get K s1 ''PB'' of
        (Inl e, s2) \<Rightarrow> (Inl e, s2)
      | (Inr pb, s2) \<Rightarrow>
     (case np_add (heap s2 ! p) (heap s2 ! pb) of
        Inl e \<Rightarrow> (Inl e, s2)
      | Inr ppb \<Rightarrow>
          (case alloc s2 (mul_scalar (Num 0.01) ppb) of (a, s3) \<Rightarrow> (Inr a, s3)))))"
| "GetVar_get K self var_name =
     (case variables self var_name of
        Some var \<Rightarrow> (Inr var, self)
      | None \<Rightarrow>
          (case (case nc_variables (ncfile self) var_name of
                   Some ncvar \<Rightarrow>
                     (let s1 = emit self (Ev_read var_name (timeidx self)) in
                      case index0 ncvar (timeidx self) of
                        Inl e \<Rightarrow> (Inl e, s1)
                      | Inr v \<Rightarrow> (case alloc s1 v of (a, s2) \<Rightarrow> (Inr a, s2)))
                 | None \<Rightarrow>
                     if var_name = ''slp'' then
                       (case func self ''slp'' of
                          None \<Rightarrow> (Inl (KeyError ''slp''), self)
                        | Some f \<Rightarrow> GetVar_slp K self f)
                     else if var_name = ''tk'' then
                       (case func self ''tk'' of
                          None \<Rightarrow> (Inl (KeyError ''tk''), self)
                        | Some f \<Rightarrow> GetVar_tk K self f)
                     else if var_name = ''pres'' then GetVar_pres K self
                     else (Inl (ValueError (''Unavailable variable: '' @ var_name)), self)) of
             (Inl e, s) \<Rightarrow> (Inl e, s)
           | (Inr var, s) \<Rightarrow> (Inr var, s\<lparr>variables := (variables s)(var_name \<mapsto> var)\<rparr>)))"
  by pat_completeness auto
termination
  by (relation "measure (\<lambda>x. case x of
        Inl (Inl (K, self, f)) \<Rightarrow> 2
      | Inl (Inr (K, self, f)) \<Rightarrow> 4
      | Inr (Inl (K, self)) \<Rightarrow> 2
      | Inr (Inr (K, self, n)) \<Rightarrow>
          (if n = ''slp'' then 5 else if n = ''tk'' then 3 else if n = ''pres'' then 3 else 1))")
    auto

declare GetVar_tk.simps [simp del] GetVar_slp.simps [simp del]
  GetVar_pres.simps [simp del] GetVar_get.simps [simp del]

text \<open>
  A caller that makes one \<^verbatim>\<open>get\<close> call after another on the same instance, whatever
  each call returns or raises.
\<close>

fun get_calls :: "externals \<Rightarrow> GetVar \<Rightarrow> string list \<Rightarrow> GetVar" where
  "get_calls K self [] = self"
| "get_calls K self (n # ns) = get_calls K (snd (GetVar_get K self n)) ns"

text \<open>
  In a consistent instance every cached address is an object of the memory.
\<close>

definition wf :: "GetVar \<Rightarrow> bool" where
  "wf self = (\<forall>n a. variables self n = Some a \<longrightarrow> a < length (heap self))"

text \<open>
  What a call may do to an instance from the caller's side: objects and events are
  added, the objects that existed stay as they were, names are added to the cache, the
  names that were cached keep their address, and the other fields stay.
\<close>

definition frame :: "GetVar \<Rightarrow> GetVar \<Rightarrow> bool" where
  "frame s s' =
     (prefix (heap s) (heap s') \<and> prefix (trace s) (trace s') \<and>
      variables s \<subseteq>\<^sub>m variables s' \<and>
      filename s' = filename s \<and> ncfile s' = ncfile s \<and> timeidx s' = timeidx s \<and>
      func s' = func s)"

text \<open>The names a call of \<^verbatim>\<open>get\<close> can add to the cache.\<close>

definition touched :: "string \<Rightarrow> string set" where
  "touched n =
     insert n
       (if n = ''slp'' then {''P'', ''PB'', ''QVAPOR'', ''PH'', ''PHB'', ''tk'', ''T''}
        else if n = ''tk'' then {''P'', ''PB'', ''T''}
        else if n = ''pres'' then {''P'', ''PB''}
        else {})"

text \<open>
  A step from \<open>s\<close> with result \<open>res\<close> is in order when it keeps the frame, adds to the
  cache only names of \<open>D\<close>, and those with addresses of new objects, and keeps a
  consistent instance consistent, returning an address of the memory. The result of a
  recipe is a new object.
\<close>

definition ok_step :: "GetVar \<Rightarrow> string set \<Rightarrow> (pyerr + addr) \<times> GetVar \<Rightarrow> bool" where
  "ok_step s D res =
     (case res of (r, s') \<Rightarrow>
        frame s s' \<and> dom (variables s') \<subseteq> dom (variables s) \<union> D \<and>
        (\<forall>n a. variables s' n = Some a \<longrightarrow> variables s n = Some a \<or> length (heap s) \<le> a) \<and>
        (wf s \<longrightarrow> wf s' \<and> (\<forall>a. r = Inr a \<longrightarrow> a < length (heap s'))))"

definition fresh_result :: "GetVar \<Rightarrow> (pyerr + addr) \<times> GetVar \<Rightarrow> bool" where
  "fresh_result s res = (\<forall>a s'. res = (Inr a, s') \<longrightarrow> length (heap s) \<le> a)"

text \<open>
  The second half of the recipe for \<^verbatim>\<open>slp\<close> on its own, from the in-place preprocessing
  to the kernel call, as a function of the instance after the six reads and of the
  addresses they gave. The recipe is its first half followed by this (lemma
  \<open>slp_split\<close> below); the proofs treat the halves apart.
\<close>

definition slp_tail ::
  "externals \<Rightarrow> GetVar \<Rightarrow> kernel \<Rightarrow> addr \<Rightarrow> addr \<Rightarrow> addr \<Rightarrow> addr \<Rightarrow> addr \<Rightarrow> addr \<Rightarrow>
   (pyerr + addr) \<times> GetVar"
where
  "slp_tail K s9 func_slp p pb qvapor ph phb tk =
     (case np_add_out (heap s9 ! p) (heap s9 ! pb) of
        Inl e \<Rightarrow> (Inl e, s9)
      | Inr v \<Rightarrow>
     (let s10 = store s9 p v in
      case setmask (heap s10 ! qvapor) (lt_scalar (heap s10 ! qvapor) (Num 0)) (Num 0) of
        Inl e \<Rightarrow> (Inl e, s10)
      | Inr v \<Rightarrow>
     (let s11 = store s10 qvapor v in
      case np_add_out (heap s11 ! ph) (heap s11 ! phb) of
        Inl e \<Rightarrow> (Inl e, s11)
      | Inr v \<Rightarrow>
     (let s12 = store s11 ph v;
          s13 = store s12 ph (div_scalar (heap s12 ! ph) (Num 9.81))
      in case destagger (heap s13 ! ph) (- 3) of
        Inl e \<Rightarrow> (Inl e, s13)
      | Inr ph_d \<Rightarrow>
          (let ph_f = asfortranarray (T (squeeze ph_d));
               p_f = asfortranarray (T (squeeze (heap s13 ! p)));
               qvapor_f = asfortranarray (T (squeeze (heap s13 ! qvapor)));
               tk_f = asfortranarray (T (heap s13 ! tk));
               s14 = emit s13
                 (Ev_call func_slp [PArray ph_f, PArray tk_f, PArray p_f, PArray qvapor_f])
           in case call_slp K func_slp ph_f tk_f p_f qvapor_f of
                Inl e \<Rightarrow> (Inl e, s14)
              | Inr slp \<Rightarrow> (case alloc s14 (T slp) of (a, s15) \<Rightarrow> (Inr a, s15)))))))"

text \<open>
  What a cached \<^verbatim>\<open>pres\<close> is, in a store whose dataset has no variable of that name:
  \<^verbatim>\<open>P\<close> and \<^verbatim>\<open>PB\<close> are cached too, and the array is a hundredth of their sum.
\<close>

definition pres_inv :: "GetVar \<Rightarrow> bool" where
  "pres_inv s =
     (\<forall>a. variables s ''pres'' = Some a \<longrightarrow>
        (\<exists>p pb ppb. variables s ''P'' = Some p \<and> variables s ''PB'' = Some pb \<and>
           np_add (heap s ! p) (heap s ! pb) = Inr ppb \<and>
           heap s ! a = mul_scalar (Num 0.01) ppb))"

text \<open>
  A kernel call with four arguments is a sea-level-pressure call; its fourth argument
  is the mixing ratio. Such a call is clamped when no element of that argument is below
  zero. A step is clamped when every event it adds to the trace is.
\<close>

fun slp_call_clamped :: "event \<Rightarrow> bool" where
  "slp_call_clamped (Ev_call k [a, b, c, PArray qv]) = (\<forall>x \<in> set (data qv). \<not> flt x (Num 0))"
| "slp_call_clamped _ = True"

definition clamped_step :: "GetVar \<Rightarrow> (pyerr + addr) \<times> GetVar \<Rightarrow> bool" where
  "clamped_step s res =
     (\<exists>evs. trace (snd res) = trace s @ evs \<and> (\<forall>ev \<in> set evs. slp_call_clamped ev))"

section \<open>The class Interpz3d\<close>

text \<open>
  An instance holds the pressure field, the level specification, the interpolation
  kernel chosen at construction (\<^verbatim>\<open>self._interpz3d_func\<close>), the transposed pressure field
  (\<^verbatim>\<open>self._pres_f\<close>) and the bracketing index (\<^verbatim>\<open>self._lev_idx\<close>). \<open>itrace\<close> lists the kernel
  calls made so far. No method assigns to a field after construction, and the only
  array written in place is the fresh result of a kernel call, so arrays are values
  here.
\<close>

record Interpz3d =
  pres :: "fl ndarray"
  level :: pyval
  interpz3d_func :: kernel
  pres_f :: "fl ndarray"
  lev_idx :: "int ndarray"
  itrace :: "event list"

text \<open>
  \<^verbatim>\<open>__init__(pres, level)\<close>: the kernels follow the class of \<open>level\<close>; the index is
  searched once. The result comes with the events of the construction. (The message
  of the exception is written without its backquotes.)
\<close>

definition Interpz3d_init ::
  "externals \<Rightarrow> fl ndarray \<Rightarrow> pyval \<Rightarrow> (pyerr + Interpz3d) \<times> event list"
where
  "Interpz3d_init K pres0 level0 =
     (case (if isinstance_int level0 \<or> isinstance_float level0
            then Inr (Find_level_1, Interpz3d_1)
            else if isinstance_ndarray level0 then Inr (Find_level_n, Interpz3d_n)
            else Inl (ValueError (''Unavailable level type : '' @ type_repr level0))) of
        Inl e \<Rightarrow> (Inl e, [])
      | Inr (find_level_func, f) \<Rightarrow>
          (let p_f = T (asfortranarray pres0);
               evs = [Ev_call find_level_func [PArray p_f, level0]]
           in case call_find_level K find_level_func p_f level0 of
                Inl e \<Rightarrow> (Inl e, evs)
              | Inr ix \<Rightarrow>
                  (Inr \<lparr>pres = pres0, level = level0, interpz3d_func = f, pres_f = p_f,
                        lev_idx = ix, itrace = evs\<rparr>, evs)))"

definition iemit :: "Interpz3d \<Rightarrow> event \<Rightarrow> Interpz3d" where
  "iemit self ev = self\<lparr>itrace := itrace self @ [ev]\<rparr>"

text \<open>The event of the interpolation kernel call with the transposed variable \<open>v_f\<close>.\<close>

definition interp_event :: "Interpz3d \<Rightarrow> fl ndarray \<Rightarrow> event" where
  "interp_event self v_f =
     Ev_call (interpz3d_func self)
       [PArray v_f, PArray (pres_f self), level self, PIntArray (lev_idx self)]"

text \<open>
  \<^verbatim>\<open>interp(*var)\<close> returns a bare array for one variable and a list otherwise. The loop
  of the second branch is \<open>interp_loop\<close>, with the list built so far.
\<close>

datatype interp_result = Single "fl ndarray" | Many "fl ndarray list"

fun interp_loop ::
  "externals \<Rightarrow> Interpz3d \<Rightarrow> fl ndarray list \<Rightarrow> fl ndarray list \<Rightarrow>
   (pyerr + fl ndarray list) \<times> Interpz3d"
where
  "interp_loop K self [] var_interp = (Inr var_interp, self)"
| "interp_loop K self (v # vs) var_interp =
     (let v_f = T (asfortranarray v);
          s1 = iemit self (interp_event self v_f)
      in case call_interpz3d K (interpz3d_func self) v_f (pres_f self) (level self) (lev_idx self) of
           Inl e \<Rightarrow> (Inl e, s1)
         | Inr v_interp \<Rightarrow>
             (case setmask v_interp (eq_scalar (lev_idx self) 0) NaN of
                Inl e \<Rightarrow> (Inl e, s1)
              | Inr v_nan \<Rightarrow> interp_loop K s1 vs (var_interp @ [T v_nan])))"

definition Interpz3d_interp ::
  "externals \<Rightarrow> Interpz3d \<Rightarrow> fl ndarray list \<Rightarrow> (pyerr + interp_result) \<times> Interpz3d"
where
  "Interpz3d_interp K self var =
     (if length var = 1 then
        (let v_f = T (asfortranarray (var ! 0));
             s1 = iemit self (interp_event self v_f)
         in case call_interpz3d K (interpz3d_func self) v_f (pres_f self) (level self)
                   (lev_idx self) of
              Inl e \<Rightarrow> (Inl e, s1)
            | Inr v_interp \<Rightarrow>
                (case setmask v_interp (eq_scalar (lev_idx self) 0) NaN of
                   Inl e \<Rightarrow> (Inl e, s1)
                 | Inr v_nan \<Rightarrow> (Inr (Single (T v_nan)), s1)))
      else
        (case interp_loop K self var [] of
           (Inl e, s) \<Rightarrow> (Inl e, s)
         | (Inr var_interp, s) \<Rightarrow> (Inr (Many var_interp), s)))"

text \<open>
  A caller that makes one \<^verbatim>\<open>interp\<close> call after another on the same instance, whatever
  each call returns or raises.
\<close>

fun interp_calls :: "externals \<Rightarrow> Interpz3d \<Rightarrow> fl ndarray list list \<Rightarrow> Interpz3d" where
  "interp_calls K self [] = self"
| "interp_calls K self (var # rest) = interp_calls K (snd (Interpz3d_interp K self var)) rest"

text \<open>The calls of a search kernel in a trace.\<close>

fun is_find_level :: "event \<Rightarrow> bool" where
  "is_find_level (Ev_call Find_level_1 args) = True"
| "is_find_level (Ev_call Find_level_n args) = True"
| "is_find_level _ = False"

fun is_kernel_call :: "event \<Rightarrow> bool" where
  "is_kernel_call (Ev_call k args) = True"
| "is_kernel_call _ = False"

text \<open>
  The shapes of the kernels' results, as the comments of the module give them: for a
  variable in kernel order \<^verbatim>\<open>(nx, ny, nz)\<close> the single-level kernel returns \<^verbatim>\<open>(nx, ny)\<close> and
  the multi-level kernel \<^verbatim>\<open>(nx, ny, nlev)\<close>.
\<close>

definition n_levels :: "pyval \<Rightarrow> nat list" where
  "n_levels l = (case l of PArray a \<Rightarrow> shape a | PIntArray a \<Rightarrow> shape a | _ \<Rightarrow> [])"

definition interp_shape_contract :: "externals \<Rightarrow> bool" where
  "interp_shape_contract K =
     ((\<forall>v p l ix out. interpz3d_1 K v p l ix = Inr out \<longrightarrow> shape out = take 2 (shape v)) \<and>
      (\<forall>v p l ix out. interpz3d_n K v p l ix = Inr out \<longrightarrow>
         shape out = take 2 (shape v) @ n_levels l))"

text \<open>
  An array carries the missing-data marker wherever the bracketing index \<open>ix\<close> is zero:
  at every position \<open>pos\<close> of the array whose index, read at the same place in kernel
  order (the reversed position, cut to the axes of \<open>ix\<close>), is zero.
\<close>

definition nan_where_zero :: "int ndarray \<Rightarrow> fl ndarray \<Rightarrow> bool" where
  "nan_where_zero ix a =
     (\<forall>pos. valid_index (shape a) pos \<longrightarrow>
        getitem ix (take (length (shape ix)) (rev pos)) = 0 \<longrightarrow> getitem a pos = NaN)"

text \<open>
  The shape of a returned array for variables of shape \<^verbatim>\<open>(nz, ny, nx)\<close>, by the shapes
  above: the transposed result of the kernel.
\<close>

definition interp_shape :: "pyval \<Rightarrow> nat \<Rightarrow> nat \<Rightarrow> nat list" where
  "interp_shape lvl ny nx =
     (if isinstance_ndarray lvl then rev (n_levels lvl) @ [ny, nx] else [ny, nx])"

section \<open>Example data\<close>

text \<open>
  A small dataset with one time step, two levels and a grid of one row and two
  columns, and stub kernels, on which the model is run below. The stub kernels return
  arrays of the shapes the module's comments give: the temperature kernel returns an
  array shaped as its inputs, the sea-level-pressure kernel one value per column, the
  search kernels an index per column (and level), the interpolation kernels a value per
  column (and level).
\<close>

definition ex_vars :: "(string \<times> fl ndarray) list" where
  "ex_vars =
     [(''P'', \<lparr>shape = [1, 2, 1, 2], data = [Num 10, Num 20, Num 30, Num 40]\<rparr>),
      (''PB'', \<lparr>shape = [1, 2, 1, 2], data = [Num 1, Num 2, Num 3, Num 4]\<rparr>),
      (''T'', \<lparr>shape = [1, 2, 1, 2], data = [Num 0, Num 1, Num 2, Num 3]\<rparr>),
      (''QVAPOR'', \<lparr>shape = [1, 2, 1, 2], data = [Num (- 1), Num 2, Num 0, Num (- 3)]\<rparr>),
      (''PH'', \<lparr>shape = [1, 3, 1, 2],
                data = [Num 0, Num 0, Num 981, Num 981, Num 1962, Num 1962]\<rparr>),
      (''PHB'', \<lparr>shape = [1, 3, 1, 2],
                 data = [Num 0, Num 0, Num 0, Num 0, Num 0, Num 0]\<rparr>)]"

definition ex_nc :: dataset where
  "ex_nc = \<lparr>nc_dimensions = [''Time'' \<mapsto> 1], nc_variables = map_of ex_vars\<rparr>"

text \<open>A dataset that stores a field under the name \<^verbatim>\<open>pres\<close> itself.\<close>

definition ex_nc_pres :: dataset where
  "ex_nc_pres =
     \<lparr>nc_dimensions = [''Time'' \<mapsto> 1],
      nc_variables =
        map_of ((''pres'', \<lparr>shape = [1, 2, 1, 2],
                            data = [Num 1000, Num 900, Num 1000, Num 900]\<rparr>) # ex_vars)\<rparr>"

definition ex_K :: externals where
  "ex_K =
     \<lparr>Dataset = (\<lambda>f. if f = ''wrfout'' then Inr ex_nc
                      else if f = ''wrfout_pres'' then Inr ex_nc_pres
                      else Inl (OSError f)),
      calc_tk = (\<lambda>p th. Inr th),
      calc_tk_nd = (\<lambda>p th. Inr th),
      dcomputeseaprs = (\<lambda>ph tk p q. Inr (from_fun (take 2 (shape p)) (\<lambda>idx. Num 1000))),
      dcomputeseaprs_nt = (\<lambda>ph tk p q. Inr (from_fun (take 2 (shape p)) (\<lambda>idx. Num 1000))),
      find_level_1 = (\<lambda>p l. Inr (from_fun (take 2 (shape p)) (\<lambda>idx. if hd idx = 0 then 0 else 1))),
      find_level_n =
        (\<lambda>p l. Inr (from_fun (take 2 (shape p) @ n_levels l) (\<lambda>idx. if hd idx = 0 then 0 else 1))),
      interpz3d_1 =
        (\<lambda>v p l ix. Inr (from_fun (take 2 (shape v)) (\<lambda>idx. getitem v (idx @ [0])))),
      interpz3d_n =
        (\<lambda>v p l ix. Inr (from_fun (take 2 (shape v) @ n_levels l)
                            (\<lambda>idx. getitem v (take 2 idx @ [0]))))\<rparr>"

text \<open>The store right after construction on the first dataset, built by hand.\<close>

definition ex_store :: GetVar where
  "ex_store =
     \<lparr>variables = Map.empty, filename = ''wrfout'', ncfile = ex_nc,
      timeidx = PSlice (Some 0) None None,
      func = [''tk'' \<mapsto> Calc_tk, ''slp'' \<mapsto> Dcomputeseaprs],
      heap = [], trace = [Ev_open ''wrfout'']\<rparr>"

text \<open>A pressure field of two levels on the same grid, and a variable on it.\<close>

definition ex_pres :: "fl ndarray" where
  "ex_pres = \<lparr>shape = [2, 1, 2], data = [Num 1000, Num 900, Num 800, Num 700]\<rparr>"

definition ex_var :: "fl ndarray" where
  "ex_var = \<lparr>shape = [2, 1, 2], data = [Num 1, Num 2, Num 3, Num 4]\<rparr>"

definition ex_levels :: "fl ndarray" where
  "ex_levels = \<lparr>shape = [3], data = [Num 950, Num 850, Num 750]\<rparr>"

text \<open>The store after a first call \<^verbatim>\<open>get('pres')\<close>.\<close>

definition ex_store_pres :: GetVar where
  "ex_store_pres = snd (GetVar_get ex_K ex_store ''pres'')"

text \<open>
  A stricter interpolation kernel, which refuses a variable whose shape is not the shape
  of the pressure field, as a compiled kernel with declared dimensions does.
\<close>

definition ex_K_strict :: externals where
  "ex_K_strict =
     ex_K\<lparr>interpz3d_1 :=
            (\<lambda>v p l ix. if shape v = shape p then interpz3d_1 ex_K v p l ix
                        else Inl (KernelError ''shape mismatch'')),
          interpz3d_n :=
            (\<lambda>v p l ix. if shape v = shape p then interpz3d_n ex_K v p l ix
                        else Inl (KernelError ''shape mismatch''))\<rparr>"

text \<open>Interpolators on the example pressure field, for one level and for three.\<close>

definition ex_interp_1 :: Interpz3d where
  "ex_interp_1 = projr (fst (Interpz3d_init ex_K ex_pres (PFloat (Num 850))))"

definition ex_interp_n :: Interpz3d where
  "ex_interp_n = projr (fst (Interpz3d_init ex_K ex_pres (PArray ex_levels)))"

text \<open>A variable with three levels, one more than the pressure field has.\<close>

definition ex_var_3 :: "fl ndarray" where
  "ex_var_3 = \<lparr>shape = [3, 1, 2], data = [Num 1, Num 2, Num 3, Num 4, Num 5, Num 6]\<rparr>"

text \<open>The store after \<^verbatim>\<open>get('pres')\<close> and then \<^verbatim>\<open>get('slp')\<close>.\<close>

definition ex_after_slp :: GetVar where
  "ex_after_slp = snd (GetVar_get ex_K ex_store_pres ''slp'')"

text \<open>The store after \<^verbatim>\<open>get('slp')\<close> and then \<^verbatim>\<open>get('pres')\<close>.\<close>

definition ex_after_pres :: GetVar where
  "ex_after_pres = snd (GetVar_get ex_K (get_calls ex_K ex_store [''slp'']) ''pres'')"

text \<open>
  The store constructed on the dataset that has a variable \<^verbatim>\<open>pres\<close>, and the same after
  \<^verbatim>\<open>get('pres')\<close>, \<^verbatim>\<open>get('P')\<close> and \<^verbatim>\<open>get('PB')\<close>.
\<close>

definition ex_store_b :: GetVar where
  "ex_store_b = projr (fst (GetVar_init ex_K ''wrfout_pres'' PNone))"

definition ex_store_b3 :: GetVar where
  "ex_store_b3 = get_calls ex_K ex_store_b [''pres'', ''P'', ''PB'']"

section \<open>Facts about arrays and index tuples\<close>

lemma valid_index_length: "valid_index shp idx \<Longrightarrow> length idx = length shp"
  by (induction shp idx rule: valid_index.induct) auto

lemma ravel_less: "valid_index shp idx \<Longrightarrow> ravel shp idx < prod_list shp"
proof (induction shp idx rule: valid_index.induct)
  case (2 n ns i "is")
  then have a: "i < n" and b: "ravel ns is < prod_list ns" by auto
  have "i * prod_list ns + ravel ns is < i * prod_list ns + prod_list ns"
    using b by simp
  also have "\<dots> = Suc i * prod_list ns" by simp
  also have "\<dots> \<le> n * prod_list ns"
    using a by (intro mult_le_mono1) simp
  finally show ?case by simp
qed auto

lemma unravel_ravel: "valid_index shp idx \<Longrightarrow> unravel shp (ravel shp idx) = idx"
proof (induction shp idx rule: valid_index.induct)
  case (2 n ns i "is")
  then have b: "ravel ns is < prod_list ns" by (simp add: ravel_less)
  with 2 show ?case by simp
qed auto

lemma valid_unravel: "j < prod_list shp \<Longrightarrow> valid_index shp (unravel shp j)"
proof (induction shp arbitrary: j)
  case (Cons n ns)
  then have pos: "0 < prod_list ns" by (cases "prod_list ns = 0") auto
  have "j div prod_list ns < n"
    using Cons.prems pos by (simp add: less_mult_imp_div_less mult.commute)
  moreover have "j mod prod_list ns < prod_list ns" using pos by simp
  ultimately show ?case using Cons.IH by simp
qed simp

lemma ravel_unravel: "j < prod_list shp \<Longrightarrow> ravel shp (unravel shp j) = j"
proof (induction shp arbitrary: j)
  case (Cons n ns)
  then have pos: "0 < prod_list ns" by (cases "prod_list ns = 0") auto
  then show ?case using Cons.IH [of "j mod prod_list ns"] by simp
qed simp

lemma valid_index_rev: "valid_index shp idx \<Longrightarrow> valid_index (rev shp) (rev idx)"
proof -
  have eq: "valid_index s i = list_all2 (\<lambda>n k. k < n) s i" for s i
    by (induction s i rule: valid_index.induct) auto
  show "valid_index shp idx \<Longrightarrow> valid_index (rev shp) (rev idx)"
    by (simp add: eq)
qed

lemma valid_index_take: "valid_index shp idx \<Longrightarrow> valid_index (take k shp) (take k idx)"
proof (induction shp idx arbitrary: k rule: valid_index.induct)
  case (2 n ns i "is")
  then show ?case by (cases k) auto
qed auto

lemma shape_from_fun [simp]: "shape (from_fun shp f) = shp"
  by (simp add: from_fun_def)

lemma wf_from_fun [simp]: "wf_arr (from_fun shp f)"
  by (simp add: from_fun_def wf_arr_def)

lemma getitem_from_fun: "valid_index shp idx \<Longrightarrow> getitem (from_fun shp f) idx = f idx"
  by (simp add: getitem_def from_fun_def ravel_less unravel_ravel)

lemma set_data_from_fun:
  assumes "x \<in> set (data (from_fun shp f))"
  shows "\<exists>idx. valid_index shp idx \<and> x = f idx"
proof -
  from assms obtain j where "j < prod_list shp" and "x = f (unravel shp j)"
    by (auto simp: from_fun_def)
  then show ?thesis using valid_unravel by blast
qed

lemma shape_T [simp]: "shape (T a) = rev (shape a)"
  by (simp add: T_def)

lemma getitem_T:
  "valid_index (shape a) idx \<Longrightarrow> getitem (T a) (rev idx) = getitem a idx"
  by (simp add: T_def getitem_from_fun valid_index_rev)

lemma shape_map_arr [simp]: "shape (map_arr f a) = shape a"
  by (simp add: map_arr_def)

lemma getitem_map_arr:
  "valid_index (shape a) idx \<Longrightarrow> getitem (map_arr f a) idx = f (getitem a idx)"
  by (simp add: map_arr_def getitem_from_fun)

section \<open>What a call of get leaves behind\<close>

text \<open>
  The recipes call \<^verbatim>\<open>get\<close> for names that have no recipe themselves, so the facts are
  proved in layers: first \<^verbatim>\<open>get\<close> for a name without a recipe, then the recipes for
  \<^verbatim>\<open>tk\<close> and \<^verbatim>\<open>pres\<close>, then the recipe for \<^verbatim>\<open>slp\<close>, which asks for \<^verbatim>\<open>tk\<close>.
\<close>

lemma frame_refl [simp]: "frame s s"
  by (simp add: frame_def)

lemma frame_trans: "frame s t \<Longrightarrow> frame t u \<Longrightarrow> frame s u"
  unfolding frame_def by (auto intro: map_le_trans)

lemma frame_emit: "frame s t \<Longrightarrow> frame s (emit t ev)"
  unfolding frame_def emit_def by (auto intro: prefix_order.trans)

lemma frame_alloc: "frame s t \<Longrightarrow> alloc t v = (a, u) \<Longrightarrow> frame s u"
  unfolding frame_def alloc_def by (auto intro: prefix_order.trans)

lemma prefix_update: "prefix h xs \<Longrightarrow> length h \<le> a \<Longrightarrow> prefix h (xs[a := v])"
  by (auto simp: prefix_def list_update_append)

lemma frame_store: "frame s t \<Longrightarrow> length (heap s) \<le> a \<Longrightarrow> frame s (store t a v)"
  unfolding frame_def store_def by (auto intro: prefix_update)

lemma frame_cache:
  "frame s t \<Longrightarrow> variables t n = None \<Longrightarrow> frame s (t\<lparr>variables := (variables t)(n \<mapsto> a)\<rparr>)"
  unfolding frame_def by (auto simp: map_le_def dom_def)

lemma frame_heap_length: "frame s t \<Longrightarrow> length (heap s) \<le> length (heap t)"
  unfolding frame_def by (auto simp: prefix_def)

lemma frame_heap_nth: "frame s t \<Longrightarrow> a < length (heap s) \<Longrightarrow> heap t ! a = heap s ! a"
  unfolding frame_def by (auto simp: prefix_def nth_append)

lemma frame_variables: "frame s t \<Longrightarrow> variables s n = Some a \<Longrightarrow> variables t n = Some a"
  unfolding frame_def by (auto simp: map_le_def dom_def)

lemma get_leaf:
  assumes "n \<noteq> ''slp''" "n \<noteq> ''tk''" "n \<noteq> ''pres''"
  shows "ok_step s {n} (GetVar_get K s n)"
  using assms
  by (auto simp: GetVar_get.simps ok_step_def Let_def wf_def alloc_def emit_def frame_def
      map_le_def  nth_append less_Suc_eq
      split: option.splits sum.splits prod.splits)


lemma alloc_addr: "alloc s v = (a, t) \<Longrightarrow> a = length (heap s)"
  by (auto simp: alloc_def)

lemma ok_stepI:
  assumes "frame s s'" and "dom (variables s') \<subseteq> dom (variables s) \<union> D"
    and "\<And>n a. variables s' n = Some a \<Longrightarrow> variables s n = Some a \<or> length (heap s) \<le> a"
    and "wf s \<Longrightarrow> wf s'" and "\<And>a. wf s \<Longrightarrow> r = Inr a \<Longrightarrow> a < length (heap s')"
  shows "ok_step s D (r, s')"
  using assms by (simp add: ok_step_def)

lemma ok_step_new:
  "ok_step s D (r, s') \<Longrightarrow> variables s' n = Some a \<Longrightarrow>
   variables s n = Some a \<or> length (heap s) \<le> a"
  by (simp add: ok_step_def)

lemma ok_step_frame: "ok_step s D (r, s') \<Longrightarrow> frame s s'"
  by (simp add: ok_step_def)

lemma ok_step_dom: "ok_step s D (r, s') \<Longrightarrow> dom (variables s') \<subseteq> dom (variables s) \<union> D"
  by (simp add: ok_step_def)

lemma ok_step_wf: "ok_step s D (r, s') \<Longrightarrow> wf s \<Longrightarrow> wf s'"
  by (simp add: ok_step_def)

lemma ok_step_addr: "ok_step s D (Inr a, s') \<Longrightarrow> wf s \<Longrightarrow> a < length (heap s')"
  by (simp add: ok_step_def)

lemma ok_step_trans:
  assumes a: "ok_step s D1 (r1, s1)" and b: "ok_step s1 D2 (r2, s2)"
  shows "ok_step s (D1 \<union> D2) (r2, s2)"
proof (rule ok_stepI)
  show "frame s s2"
    using a b by (blast intro: frame_trans ok_step_frame)
  show "dom (variables s2) \<subseteq> dom (variables s) \<union> (D1 \<union> D2)"
    using ok_step_dom [OF a] ok_step_dom [OF b] by blast
  show "variables s n = Some c \<or> length (heap s) \<le> c" if "variables s2 n = Some c" for n c
    using ok_step_new [OF b that] ok_step_new [OF a, of n c]
      frame_heap_length [OF ok_step_frame [OF a]] by auto
  show "wf s2" if "wf s"
    using a b that by (blast intro: ok_step_wf)
  show "a < length (heap s2)" if "wf s" "r2 = Inr a" for a
    using a b that by (blast intro: ok_step_wf ok_step_addr)
qed

lemma ok_step_mono: "ok_step s D res \<Longrightarrow> D \<subseteq> D' \<Longrightarrow> ok_step s D' res"
  unfolding ok_step_def by (cases res) auto

lemma ok_step_err: "ok_step s D (r, s1) \<Longrightarrow> ok_step s D (Inl e, s1)"
  unfolding ok_step_def by auto

lemma wf_emit [simp]: "wf (emit s ev) = wf s"
  by (simp add: wf_def emit_def)

lemma wf_store [simp]: "wf (store s a v) = wf s"
  by (simp add: wf_def store_def)

lemma ok_step_emit:
  assumes a: "ok_step s D (r, s1)"
  shows "ok_step s D (r, emit s1 ev)"
proof (rule ok_stepI)
  show "frame s (emit s1 ev)"
    using a by (blast intro: frame_emit ok_step_frame)
  show "dom (variables (emit s1 ev)) \<subseteq> dom (variables s) \<union> D"
    using ok_step_dom [OF a] by (simp add: emit_def)
  show "variables s n = Some c \<or> length (heap s) \<le> c"
    if "variables (emit s1 ev) n = Some c" for n c
    using ok_step_new [OF a, of n c] that by (simp add: emit_def)
  show "wf (emit s1 ev)" if "wf s"
    using a that by (simp add: ok_step_wf)
  show "b < length (heap (emit s1 ev))" if "wf s" "r = Inr b" for b
    using a that by (auto simp: emit_def dest: ok_step_addr)
qed

lemma ok_step_store:
  assumes a: "ok_step s D (r, s1)" and le: "length (heap s) \<le> b"
  shows "ok_step s D (r, store s1 b v)"
proof (rule ok_stepI)
  show "frame s (store s1 b v)"
    using a le by (blast intro: frame_store ok_step_frame)
  show "dom (variables (store s1 b v)) \<subseteq> dom (variables s) \<union> D"
    using ok_step_dom [OF a] by (simp add: store_def)
  show "variables s n = Some c \<or> length (heap s) \<le> c"
    if "variables (store s1 b v) n = Some c" for n c
    using ok_step_new [OF a, of n c] that by (simp add: store_def)
  show "wf (store s1 b v)" if "wf s"
    using a that by (simp add: ok_step_wf)
  show "c < length (heap (store s1 b v))" if "wf s" "r = Inr c" for c
    using a that by (auto simp: store_def dest: ok_step_addr)
qed

lemma ok_step_alloc:
  assumes a: "ok_step s D (r, s1)" and al: "alloc s1 v = (b, s2)"
  shows "ok_step s D (Inr b, s2)"
proof (rule ok_stepI)
  show "frame s s2"
    using a al by (blast intro: frame_alloc ok_step_frame)
  have vs: "variables s2 = variables s1"
    using al by (auto simp: alloc_def)
  then show "dom (variables s2) \<subseteq> dom (variables s) \<union> D"
    using ok_step_dom [OF a] by simp
  show "variables s n = Some c \<or> length (heap s) \<le> c" if "variables s2 n = Some c" for n c
    using ok_step_new [OF a, of n c] that vs by simp
  show "wf s2" if "wf s"
    using ok_step_wf [OF a that] al by (auto simp: alloc_def wf_def less_Suc_eq)
  show "c < length (heap s2)" if "Inr b = Inr c" for c
    using that al by (auto simp: alloc_def)
qed

lemma ok_step_cache:
  assumes a: "ok_step s D (Inr b, s1)" and n: "variables s1 n = None"
    and fr: "length (heap s) \<le> b"
  shows "ok_step s (insert n D) (Inr b, s1\<lparr>variables := (variables s1)(n \<mapsto> b)\<rparr>)"
proof (rule ok_stepI)
  show "frame s (s1\<lparr>variables := (variables s1)(n \<mapsto> b)\<rparr>)"
    using a n by (blast intro: frame_cache ok_step_frame)
  show "dom (variables (s1\<lparr>variables := (variables s1)(n \<mapsto> b)\<rparr>)) \<subseteq> dom (variables s) \<union> insert n D"
    using ok_step_dom [OF a] by auto
  show "variables s m = Some c \<or> length (heap s) \<le> c"
    if "variables (s1\<lparr>variables := (variables s1)(n \<mapsto> b)\<rparr>) m = Some c" for m c
    using ok_step_new [OF a, of m c] that fr by (auto split: if_splits)
  show "wf (s1\<lparr>variables := (variables s1)(n \<mapsto> b)\<rparr>)" if "wf s"
    using ok_step_wf [OF a that] ok_step_addr [OF a that] by (auto simp: wf_def)
  show "c < length (heap (s1\<lparr>variables := (variables s1)(n \<mapsto> b)\<rparr>))"
    if "wf s" "Inr b = Inr c" for c
    using ok_step_addr [OF a] that by auto
qed

lemma ok_step_refl: "ok_step s D (Inl e, s)"
  unfolding ok_step_def by auto

lemma pres_ok:
  "ok_step s {''P'', ''PB''} (GetVar_pres K s) \<and> fresh_result s (GetVar_pres K s)"
proof -
  obtain r1 s1 where g1: "GetVar_get K s ''P'' = (r1, s1)" by force
  obtain r2 s2 where g2: "GetVar_get K s1 ''PB'' = (r2, s2)" by force
  have o1: "ok_step s {''P''} (r1, s1)" using get_leaf [of "''P''" s K] g1 by simp
  have "ok_step s1 {''PB''} (r2, s2)" using get_leaf [of "''PB''" s1 K] g2 by simp
  with o1 have o2: "ok_step s ({''P''} \<union> {''PB''}) (r2, s2)" by (rule ok_step_trans)
  have e1: "ok_step s {''P'', ''PB''} (Inl e, s1)" for e
    using o1 by (auto intro: ok_step_err ok_step_mono)
  have e2: "ok_step s {''P'', ''PB''} (Inl e, s2)" for e
    using o2 by (auto intro: ok_step_err ok_step_mono)
  have f: "ok_step s {''P'', ''PB''} (Inr a, s3)" if "alloc s2 v = (a, s3)" for v a s3
    using o2 that by (auto intro: ok_step_alloc ok_step_mono)
  have n: "length (heap s) \<le> a" if "alloc s2 v = (a, s3)" for v a s3
    using frame_heap_length [OF ok_step_frame [OF o2]] alloc_addr [OF that] by simp
  show ?thesis
    by (auto simp: GetVar_pres.simps g1 g2 e1 e2 f n fresh_result_def
        split: sum.splits prod.splits)
qed

lemma tk_ok:
  "ok_step s {''P'', ''PB'', ''T''} (GetVar_tk K s k) \<and> fresh_result s (GetVar_tk K s k)"
proof -
  let ?D = "{''P'', ''PB'', ''T''}"
  obtain r1 s1 where g1: "GetVar_get K s ''P'' = (r1, s1)" by force
  obtain r2 s2 where g2: "GetVar_get K s1 ''PB'' = (r2, s2)" by force
  obtain r3 s3 where g3: "GetVar_get K s2 ''T'' = (r3, s3)" by force
  have o1: "ok_step s {''P''} (r1, s1)" using get_leaf [of "''P''" s K] g1 by simp
  have "ok_step s1 {''PB''} (r2, s2)" using get_leaf [of "''PB''" s1 K] g2 by simp
  with o1 have o2: "ok_step s ({''P''} \<union> {''PB''}) (r2, s2)" by (rule ok_step_trans)
  have "ok_step s2 {''T''} (r3, s3)" using get_leaf [of "''T''" s2 K] g3 by simp
  with o2 have o3: "ok_step s (({''P''} \<union> {''PB''}) \<union> {''T''}) (r3, s3)" by (rule ok_step_trans)
  have e1: "ok_step s ?D (Inl e, s1)" for e
    using o1 by (auto intro: ok_step_err ok_step_mono)
  have e2: "ok_step s ?D (Inl e, s2)" for e
    using o2 by (auto intro: ok_step_err ok_step_mono)
  have e3: "ok_step s ?D (Inl e, s3)" for e
    using o3 by (auto intro: ok_step_err ok_step_mono)
  have o4: "ok_step s ?D (r3, emit s3 ev)" for ev
    using o3 by (auto intro: ok_step_emit ok_step_mono)
  have e4: "ok_step s ?D (Inl e, emit s3 ev)" for e ev
    using o4 by (auto intro: ok_step_err)
  have f: "ok_step s ?D (Inr a, s5)" if "alloc (emit s3 ev) v = (a, s5)" for v a s5 ev
    using o4 that by (auto intro: ok_step_alloc)
  have n: "length (heap s) \<le> a" if "alloc (emit s3 ev) v = (a, s5)" for v a s5 ev
    using frame_heap_length [OF ok_step_frame [OF o3]] alloc_addr [OF that]
    by (simp add: emit_def)
  show ?thesis
    by (auto simp: GetVar_tk.simps g1 g2 g3 e1 e2 e3 e4 f n Let_def fresh_result_def
        split: sum.splits prod.splits)
qed

lemma touched_simps:
  "touched ''slp'' = {''slp'', ''P'', ''PB'', ''QVAPOR'', ''PH'', ''PHB'', ''tk'', ''T''}"
  "touched ''tk'' = {''tk'', ''P'', ''PB'', ''T''}"
  "touched ''pres'' = {''pres'', ''P'', ''PB''}"
  "n \<noteq> ''slp'' \<Longrightarrow> n \<noteq> ''tk'' \<Longrightarrow> n \<noteq> ''pres'' \<Longrightarrow> touched n = {n}"
  by (auto simp: touched_def)

lemma get_recipe_ok:
  assumes v: "variables s n = None" and nc: "nc_variables (ncfile s) n = None"
    and r: "ok_step s D res \<and> fresh_result s res" and nD: "n \<notin> D"
  shows "ok_step s (insert n D)
     (case res of (Inl e, t) \<Rightarrow> (Inl e, t)
      | (Inr var, t) \<Rightarrow> (Inr var, t\<lparr>variables := (variables t)(n \<mapsto> var)\<rparr>))"
proof (cases res)
  case (Pair r0 t)
  show ?thesis
  proof (cases r0)
    case (Inl e)
    with Pair r show ?thesis by (auto intro: ok_step_mono)
  next
    case (Inr a)
    have "dom (variables t) \<subseteq> dom (variables s) \<union> D"
      using r Pair by (simp add: ok_step_def)
    with v nD have "variables t n = None" by (auto simp: dom_def)
    with r Pair Inr show ?thesis by (auto intro: ok_step_cache simp: fresh_result_def)
  qed
qed

lemma get_tk_ok: "ok_step s (touched ''tk'') (GetVar_get K s ''tk'')"
proof (cases "variables s ''tk''")
  case (Some a)
  then show ?thesis
    by (auto simp: GetVar_get.simps ok_step_def wf_def)
next
  case None
  show ?thesis
  proof (cases "nc_variables (ncfile s) ''tk''")
    case (Some ncvar)
    with None show ?thesis
      by (auto simp: GetVar_get.simps ok_step_def Let_def wf_def alloc_def emit_def frame_def
        map_le_def nth_append less_Suc_eq touched_simps
        split: option.splits sum.splits prod.splits)
  next
    case nc: None
    show ?thesis
    proof (cases "func s ''tk''")
      case fn: None
      with None nc show ?thesis
        by (simp add: GetVar_get.simps ok_step_refl)
    next
      case (Some k)
      have "ok_step s (insert ''tk'' {''P'', ''PB'', ''T''})
        (case GetVar_tk K s k of (Inl e, t) \<Rightarrow> (Inl e, t)
         | (Inr var, t) \<Rightarrow> (Inr var, t\<lparr>variables := (variables t)(''tk'' \<mapsto> var)\<rparr>))"
        using None nc tk_ok by (rule get_recipe_ok) simp
      with None nc Some show ?thesis
        by (simp add: GetVar_get.simps touched_simps)
    qed
  qed
qed


lemma slp_ok:
  "ok_step s {''P'', ''PB'', ''QVAPOR'', ''PH'', ''PHB'', ''tk'', ''T''} (GetVar_slp K s k) \<and>
   fresh_result s (GetVar_slp K s k)"
proof -
  let ?D = "{''P'', ''PB'', ''QVAPOR'', ''PH'', ''PHB'', ''tk'', ''T''}"
  obtain r1 s1 where g1: "GetVar_get K s ''P'' = (r1, s1)" by force
  obtain p s2 where a2: "alloc s1 (heap s1 ! projr r1) = (p, s2)" by force
  obtain r3 s3 where g3: "GetVar_get K s2 ''PB'' = (r3, s3)" by force
  obtain r4 s4 where g4: "GetVar_get K s3 ''QVAPOR'' = (r4, s4)" by force
  obtain q s5 where a5: "alloc s4 (heap s4 ! projr r4) = (q, s5)" by force
  obtain r6 s6 where g6: "GetVar_get K s5 ''PH'' = (r6, s6)" by force
  obtain ph s7 where a7: "alloc s6 (heap s6 ! projr r6) = (ph, s7)" by force
  obtain r8 s8 where g8: "GetVar_get K s7 ''PHB'' = (r8, s8)" by force
  obtain r9 s9 where g9: "GetVar_get K s8 ''tk'' = (r9, s9)" by force
  have a2': "alloc s1 (heap s1 ! x) = (p, s2)" if "r1 = Inr x" for x
    using a2 that by simp
  have a5': "alloc s4 (heap s4 ! x) = (q, s5)" if "r4 = Inr x" for x
    using a5 that by simp
  have a7': "alloc s6 (heap s6 ! x) = (ph, s7)" if "r6 = Inr x" for x
    using a7 that by simp
  have o1: "ok_step s ?D (r1, s1)"
    using get_leaf [of "''P''" s K] g1 by (auto intro: ok_step_mono)
  have o2: "ok_step s ?D (Inr p, s2)"
    using o1 a2 by (rule ok_step_alloc)
  have "ok_step s2 ?D (r3, s3)"
    using get_leaf [of "''PB''" s2 K] g3 by (auto intro: ok_step_mono)
  with o2 have o3: "ok_step s ?D (r3, s3)"
    by (auto dest: ok_step_trans)
  have "ok_step s3 ?D (r4, s4)"
    using get_leaf [of "''QVAPOR''" s3 K] g4 by (auto intro: ok_step_mono)
  with o3 have o4: "ok_step s ?D (r4, s4)"
    by (auto dest: ok_step_trans)
  have o5: "ok_step s ?D (Inr q, s5)"
    using o4 a5 by (rule ok_step_alloc)
  have "ok_step s5 ?D (r6, s6)"
    using get_leaf [of "''PH''" s5 K] g6 by (auto intro: ok_step_mono)
  with o5 have o6: "ok_step s ?D (r6, s6)"
    by (auto dest: ok_step_trans)
  have o7: "ok_step s ?D (Inr ph, s7)"
    using o6 a7 by (rule ok_step_alloc)
  have "ok_step s7 ?D (r8, s8)"
    using get_leaf [of "''PHB''" s7 K] g8 by (auto intro: ok_step_mono)
  with o7 have o8: "ok_step s ?D (r8, s8)"
    by (auto dest: ok_step_trans)
  have "ok_step s8 ?D (r9, s9)"
    using get_tk_ok [of s8 K] g9 by (auto intro: ok_step_mono simp: touched_simps)
  with o8 have o9: "ok_step s ?D (r9, s9)"
    by (auto dest: ok_step_trans)
  have lp: "length (heap s) \<le> p"
    using frame_heap_length [OF ok_step_frame [OF o1]] alloc_addr [OF a2] by simp
  have lq: "length (heap s) \<le> q"
    using frame_heap_length [OF ok_step_frame [OF o4]] alloc_addr [OF a5] by simp
  have lph: "length (heap s) \<le> ph"
    using frame_heap_length [OF ok_step_frame [OF o6]] alloc_addr [OF a7] by simp
  note e = o1 [THEN ok_step_err] o3 [THEN ok_step_err] o4 [THEN ok_step_err]
    o6 [THEN ok_step_err] o8 [THEN ok_step_err] o9 [THEN ok_step_err]
  have e10: "ok_step s ?D (Inl e, store s9 p v)" for e v
    using e(6) lp by (rule ok_step_store)
  have e11: "ok_step s ?D (Inl e, store (store s9 p v) q v')" for e v v'
    using e10 lq by (rule ok_step_store)
  have e12: "ok_step s ?D (Inl e, store (store (store s9 p v) q v') ph v'')" for e v v' v''
    using e11 lph by (rule ok_step_store)
  have e13: "ok_step s ?D (Inl e, store (store (store (store s9 p v) q v') ph v'') ph w)"
    for e v v' v'' w
    using e12 lph by (rule ok_step_store)
  have e14: "ok_step s ?D (Inl e, emit (store (store (store (store s9 p v) q v') ph v'') ph w) ev)"
    for e v v' v'' w ev
    using e13 by (rule ok_step_emit)
  have f: "ok_step s ?D (Inr a, s15)"
    if "alloc (emit (store (store (store (store s9 p v) q v') ph v'') ph w) ev) x = (a, s15)"
    for a s15 v v' v'' w ev x
    using e14 that by (rule ok_step_alloc)
  have n: "length (heap s) \<le> a"
    if "alloc (emit (store (store (store (store s9 p v) q v') ph v'') ph w) ev) x = (a, s15)"
    for a s15 v v' v'' w ev x
    using frame_heap_length [OF ok_step_frame [OF o9]] alloc_addr [OF that]
    by (simp add: emit_def store_def)
  show ?thesis
    by (auto simp: GetVar_slp.simps g1 a2' g3 g4 a5' g6 a7' g8 g9 Let_def e e10 e11 e12 e13 e14 f n
        fresh_result_def split: sum.splits prod.splits)
qed

lemma get_ok: "ok_step s (touched n) (GetVar_get K s n)"
proof -
  consider "n = ''tk''" | "n = ''slp''" | "n = ''pres''"
    | "n \<noteq> ''slp''" "n \<noteq> ''tk''" "n \<noteq> ''pres''" by blast
  then show ?thesis
  proof cases
    case 1
    then show ?thesis by (simp add: get_tk_ok)
  next
    case 4
    then show ?thesis by (simp add: get_leaf touched_simps)
  next
    case 2
    show ?thesis
    proof (cases "variables s ''slp''")
      case (Some a)
      then show ?thesis
        unfolding 2 by (auto simp: GetVar_get.simps ok_step_def wf_def)
    next
      case None
      show ?thesis
      proof (cases "nc_variables (ncfile s) ''slp''")
        case (Some ncvar)
        with None show ?thesis
          unfolding 2
          by (auto simp: GetVar_get.simps ok_step_def Let_def wf_def alloc_def emit_def frame_def
            map_le_def nth_append less_Suc_eq touched_simps
            split: option.splits sum.splits prod.splits)
      next
        case nc: None
        show ?thesis
        proof (cases "func s ''slp''")
          case fn: None
          with None nc show ?thesis
            unfolding 2 by (simp add: GetVar_get.simps ok_step_refl)
        next
          case (Some k)
          have "ok_step s (insert ''slp'' {''P'', ''PB'', ''QVAPOR'', ''PH'', ''PHB'', ''tk'', ''T''})
            (case GetVar_slp K s k of (Inl e, t) \<Rightarrow> (Inl e, t)
             | (Inr var, t) \<Rightarrow> (Inr var, t\<lparr>variables := (variables t)(''slp'' \<mapsto> var)\<rparr>))"
            using None nc slp_ok by (rule get_recipe_ok) simp
          with None nc Some show ?thesis
            unfolding 2 by (simp add: GetVar_get.simps touched_simps)
        qed
      qed
    qed
  next
    case 3
    show ?thesis
    proof (cases "variables s ''pres''")
      case (Some a)
      then show ?thesis
        unfolding 3 by (auto simp: GetVar_get.simps ok_step_def wf_def)
    next
      case None
      show ?thesis
      proof (cases "nc_variables (ncfile s) ''pres''")
        case (Some ncvar)
        with None show ?thesis
          unfolding 3
          by (auto simp: GetVar_get.simps ok_step_def Let_def wf_def alloc_def emit_def frame_def
            map_le_def nth_append less_Suc_eq touched_simps
            split: option.splits sum.splits prod.splits)
      next
        case nc: None
        have "ok_step s (insert ''pres'' {''P'', ''PB''})
          (case GetVar_pres K s of (Inl e, t) \<Rightarrow> (Inl e, t)
           | (Inr var, t) \<Rightarrow> (Inr var, t\<lparr>variables := (variables t)(''pres'' \<mapsto> var)\<rparr>))"
          using None nc pres_ok by (rule get_recipe_ok) simp
        with None nc show ?thesis
          unfolding 3 by (simp add: GetVar_get.simps touched_simps)
      qed
    qed
  qed
qed

subsection \<open>Consequences for single calls and sequences of calls\<close>

lemma get_caches: "GetVar_get K s n = (Inr a, s') \<Longrightarrow> variables s' n = Some a"
  by (auto simp: GetVar_get.simps split: option.splits prod.splits sum.splits)

lemma get_ok_pair: "GetVar_get K s n = (r, s') \<Longrightarrow> ok_step s (touched n) (r, s')"
  using get_ok [of s n K] by simp

lemma get_frame: "frame s (snd (GetVar_get K s n))"
  using get_ok [of s n K] by (cases "GetVar_get K s n") (simp add: ok_step_frame)

lemma get_wf: "wf s \<Longrightarrow> wf (snd (GetVar_get K s n))"
  using get_ok [of s n K] by (cases "GetVar_get K s n") (auto dest: ok_step_wf)

lemma get_calls_frame: "frame s (get_calls K s names)"
proof (induction names arbitrary: s)
  case (Cons n names)
  show ?case
    using get_frame [of s K n] Cons.IH [of "snd (GetVar_get K s n)"]
    by (auto intro: frame_trans)
qed simp

lemma get_calls_wf: "wf s \<Longrightarrow> wf (get_calls K s names)"
  by (induction names arbitrary: s) (auto intro: get_wf)

lemma init_wf:
  assumes "GetVar_init K fname tidx = (Inr s0, evs)"
  shows "wf s0" and "variables s0 = Map.empty"
  using assms
  by (auto simp: GetVar_init_def Let_def wf_def split: sum.splits if_splits option.splits)

lemma ex_init: "GetVar_init ex_K ''wrfout'' PNone = (Inr ex_store, [Ev_open ''wrfout''])"
  by (simp add: GetVar_init_def ex_K_def ex_nc_def ex_store_def Let_def)

lemma ex_store_wf: "wf ex_store"
  by (simp add: wf_def ex_store_def)

lemma ex_store_pres_wf: "wf ex_store_pres"
  unfolding ex_store_pres_def using ex_store_wf by (rule get_wf)

section \<open>Claims about the store\<close>

text \<open>
  Claim C1. Once \<^verbatim>\<open>get(name)\<close> has returned an array, for any name (raw, derived or
  cached before), a second \<^verbatim>\<open>get(name)\<close> returns the same array object and leaves the
  instance as it was: the memory is unchanged, so the values are identical, and the
  trace is unchanged, so no kernel ran and nothing was read from the dataset. On a
  consistent store the same holds after any further \<^verbatim>\<open>get\<close> calls for other names: the
  name stays cached at its address and the array there keeps its values. Each field is
  computed at most once per instance.
\<close>

theorem get_cached_second_call:
  assumes "GetVar_get K self n = (Inr a, self')"
  shows "GetVar_get K self' n = (Inr a, self') \<and>
         (wf self \<longrightarrow>
          (\<forall>names. GetVar_get K (get_calls K self' names) n = (Inr a, get_calls K self' names) \<and>
                   heap (get_calls K self' names) ! a = heap self' ! a))"
proof (intro conjI impI allI)
  have c: "variables self' n = Some a"
    using assms by (rule get_caches)
  then show "GetVar_get K self' n = (Inr a, self')"
    by (simp add: GetVar_get.simps)
  fix names
  assume wf: "wf self"
  have o: "ok_step self (touched n) (Inr a, self')"
    using get_ok [of self n K] assms by simp
  have a: "a < length (heap self')"
    using o wf by (rule ok_step_addr)
  have fr: "frame self' (get_calls K self' names)"
    by (rule get_calls_frame)
  have "variables (get_calls K self' names) n = Some a"
    using fr c by (rule frame_variables)
  then show "GetVar_get K (get_calls K self' names) n = (Inr a, get_calls K self' names)"
    by (simp add: GetVar_get.simps)
  show "heap (get_calls K self' names) ! a = heap self' ! a"
    using fr a by (rule frame_heap_nth)
qed

theorem get_cached_second_call_witness:
  "wf ex_store \<and> fst (GetVar_get ex_K ex_store ''tk'') = Inr 3 \<and>
   GetVar_get ex_K (snd (GetVar_get ex_K ex_store ''tk'')) ''tk'' =
     (Inr 3, snd (GetVar_get ex_K ex_store ''tk'')) \<and>
   GetVar_get ex_K (get_calls ex_K (snd (GetVar_get ex_K ex_store ''tk'')) [''slp'', ''pres'']) ''tk'' =
     (Inr 3, get_calls ex_K (snd (GetVar_get ex_K ex_store ''tk'')) [''slp'', ''pres'']) \<and>
   heap (get_calls ex_K (snd (GetVar_get ex_K ex_store ''tk'')) [''slp'', ''pres'']) ! 3 =
     heap (snd (GetVar_get ex_K ex_store ''tk'')) ! 3"
proof -
  have h: "fst (GetVar_get ex_K ex_store ''tk'') = Inr 3"
    by code_simp
  then have "GetVar_get ex_K ex_store ''tk'' = (Inr 3, snd (GetVar_get ex_K ex_store ''tk''))"
    by (simp add: prod_eq_iff)
  from get_cached_second_call [OF this] h ex_store_wf show ?thesis
    by blast
qed

text \<open>
  Claim C3. \<^verbatim>\<open>get\<close> with a name that is not cached, not a variable of the dataset and
  none of \<^verbatim>\<open>slp\<close>, \<^verbatim>\<open>tk\<close>, \<^verbatim>\<open>pres\<close> raises \<^verbatim>\<open>ValueError\<close> with a message that ends in the
  name, and the instance (its cache included) is exactly as before the call.
\<close>

theorem get_unknown_variable:
  assumes "variables self n = None" and "nc_variables (ncfile self) n = None"
    and "n \<noteq> ''slp''" and "n \<noteq> ''tk''" and "n \<noteq> ''pres''"
  shows "GetVar_get K self n = (Inl (ValueError (''Unavailable variable: '' @ n)), self)"
  using assms by (simp add: GetVar_get.simps)

theorem get_unknown_variable_witness:
  "variables ex_store_pres ''not_a_real_variable'' = None \<and>
   variables ex_store_pres ''pres'' = Some 2 \<and>
   nc_variables (ncfile ex_store_pres) ''not_a_real_variable'' = None \<and>
   GetVar_get ex_K ex_store_pres ''not_a_real_variable'' =
     (Inl (ValueError ''Unavailable variable: not_a_real_variable''), ex_store_pres)"
proof -
  have a: "variables ex_store_pres ''not_a_real_variable'' = None"
    unfolding ex_store_pres_def by code_simp
  have b: "nc_variables (ncfile ex_store_pres) ''not_a_real_variable'' = None"
    unfolding ex_store_pres_def by code_simp
  have c: "variables ex_store_pres ''pres'' = Some 2"
    unfolding ex_store_pres_def by code_simp
  from get_unknown_variable [OF a b, of ex_K] c a b show ?thesis
    by simp
qed

text \<open>
  Claim C4. A time selector that is given (not \<^verbatim>\<open>None\<close>) and is neither an \<^verbatim>\<open>int\<close> nor a
  \<^verbatim>\<open>slice\<close> makes the constructor of \<^verbatim>\<open>GetVar\<close> raise: the dataset has been opened and
  nothing else has happened (no instance, hence no cache, no read, no kernel call); the
  exception is the \<^verbatim>\<open>ValueError\<close> about the type, unless opening the dataset failed
  first. A level specification that is neither an \<^verbatim>\<open>int\<close>, a \<^verbatim>\<open>float\<close> nor an array
  makes the constructor of \<^verbatim>\<open>Interpz3d\<close> raise \<^verbatim>\<open>ValueError\<close> before any kernel call.
\<close>

theorem constructors_reject_other_types:
  assumes "tidx \<noteq> PNone" and "\<not> isinstance_int tidx" and "\<not> isinstance_slice tidx"
    and "\<not> isinstance_int lvl" and "\<not> isinstance_float lvl" and "\<not> isinstance_ndarray lvl"
  shows "GetVar_init K fname tidx =
           (Inl (case Dataset K fname of
                   Inl e \<Rightarrow> e
                 | Inr nc \<Rightarrow> ValueError (''Unavailable timeidx type: '' @ type_repr tidx)),
            [Ev_open fname])
         \<and> Interpz3d_init K p lvl =
           (Inl (ValueError (''Unavailable level type : '' @ type_repr lvl)), [])"
  using assms by (simp add: GetVar_init_def Interpz3d_init_def split: sum.splits)

theorem constructors_reject_other_types_witness:
  "PObject ''str'' \<noteq> PNone \<and> \<not> isinstance_int (PObject ''str'') \<and>
   \<not> isinstance_slice (PObject ''str'') \<and> \<not> isinstance_int (PObject ''list'') \<and>
   \<not> isinstance_float (PObject ''list'') \<and> \<not> isinstance_ndarray (PObject ''list'') \<and>
   GetVar_init ex_K ''wrfout'' (PObject ''str'') =
     (Inl (ValueError ''Unavailable timeidx type: <class str>''), [Ev_open ''wrfout'']) \<and>
   Interpz3d_init ex_K ex_pres (PObject ''list'') =
     (Inl (ValueError ''Unavailable level type : <class list>''), [])"
  using constructors_reject_other_types
    [of "PObject ''str''" "PObject ''list''" ex_K "''wrfout''" ex_pres]
  by (simp add: ex_K_def)

subsection \<open>The default time selection\<close>

lemma slice_indices_full: "slice_indices n (Some 0) None None = Inr [0..<n]"
  by (auto simp: slice_indices_def slice_bound_def Let_def intro: map_idI)

lemma concat_rows_take:
  "concat (map (\<lambda>j. take r (drop (j * r) xs)) [0..<n]) = take (n * r) xs"
proof (induction n)
  case (Suc n)
  have "take (n * r) xs @ take r (drop (n * r) xs) = take (n * r + r) xs"
    by (simp add: take_add)
  with Suc show ?case by (simp add: add.commute)
qed simp

lemma index0_full:
  assumes "wf_arr a" and "shape a \<noteq> []"
  shows "index0 a (PSlice (Some 0) None None) = Inr a"
proof -
  obtain n ns where sh: "shape a = n # ns"
    using assms(2) by (cases "shape a") auto
  have len: "length (data a) = n * prod_list ns"
    using assms(1) sh by (simp add: wf_arr_def)
  have "row a = (\<lambda>j. take (prod_list ns) (drop (j * prod_list ns) (data a)))"
    by (rule ext) (simp add: row_def sh Let_def)
  then have "concat (map (row a) [0..<n]) = data a"
    using concat_rows_take [of "prod_list ns" "data a" n] len by simp
  then show ?thesis
    by (simp add: sh slice_indices_full)
qed

lemma get_raw_full:
  assumes "timeidx s = PSlice (Some 0) None None" and "variables s v = None"
    and "nc_variables (ncfile s) v = Some ncvar" and "wf_arr ncvar" and "shape ncvar \<noteq> []"
  shows "\<exists>s'. GetVar_get K s v = (Inr (length (heap s)), s') \<and> heap s' ! length (heap s) = ncvar"
proof -
  have "index0 ncvar (PSlice (Some 0) None None) = Inr ncvar"
    using assms(4,5) by (rule index0_full)
  then show ?thesis
    using assms(1,2,3)
    by (simp add: GetVar_get.simps Let_def alloc_def emit_def del: index0.simps)
qed

text \<open>
  Claim C10. Constructing a store without a time selector (\<^verbatim>\<open>None\<close>) raises no
  \<^verbatim>\<open>ValueError\<close>: when the dataset opens and has the dimension \<^verbatim>\<open>Time\<close>, the constructor
  returns an instance whose time selection is \<^verbatim>\<open>slice(0, None)\<close>, and after any sequence
  of \<^verbatim>\<open>get\<close> calls, reading a variable of the dataset that is not cached yet (an array
  with a time axis) returns the whole variable, all time steps.
\<close>

theorem init_default_time_selection:
  assumes "Dataset K fname = Inr nc" and "nc_dimensions nc ''Time'' = Some n"
  shows "\<exists>s0. GetVar_init K fname PNone = (Inr s0, [Ev_open fname]) \<and>
           timeidx s0 = PSlice (Some 0) None None \<and>
           (\<forall>names v ncvar.
              variables (get_calls K s0 names) v = None \<longrightarrow>
              nc_variables nc v = Some ncvar \<longrightarrow> wf_arr ncvar \<longrightarrow> shape ncvar \<noteq> [] \<longrightarrow>
              (\<exists>a s'. GetVar_get K (get_calls K s0 names) v = (Inr a, s') \<and> heap s' ! a = ncvar))"
proof -
  from assms obtain s0 where i: "GetVar_init K fname PNone = (Inr s0, [Ev_open fname])"
    and t: "timeidx s0 = PSlice (Some 0) None None" and f: "ncfile s0 = nc"
    by (auto simp: GetVar_init_def Let_def)
  have "\<exists>a s'. GetVar_get K (get_calls K s0 names) v = (Inr a, s') \<and> heap s' ! a = ncvar"
    if "variables (get_calls K s0 names) v = None" "nc_variables nc v = Some ncvar"
      "wf_arr ncvar" "shape ncvar \<noteq> []" for names v ncvar
  proof -
    have fr: "frame s0 (get_calls K s0 names)"
      by (rule get_calls_frame)
    then have "timeidx (get_calls K s0 names) = PSlice (Some 0) None None"
      and "ncfile (get_calls K s0 names) = nc"
      using t f by (auto simp: frame_def)
    from get_raw_full [OF this(1) that(1) _ that(3,4), of K] this(2) that(2) show ?thesis
      by auto
  qed
  with i t show ?thesis by blast
qed

theorem init_default_time_selection_witness:
  "Dataset ex_K ''wrfout'' = Inr ex_nc \<and> nc_dimensions ex_nc ''Time'' = Some 1 \<and>
   GetVar_init ex_K ''wrfout'' PNone = (Inr ex_store, [Ev_open ''wrfout'']) \<and>
   timeidx ex_store = PSlice (Some 0) None None \<and>
   variables (get_calls ex_K ex_store [''tk'']) ''PH'' = None \<and>
   nc_variables ex_nc ''PH'' =
     Some \<lparr>shape = [1, 3, 1, 2], data = [Num 0, Num 0, Num 981, Num 981, Num 1962, Num 1962]\<rparr> \<and>
   (\<exists>a s'. GetVar_get ex_K (get_calls ex_K ex_store [''tk'']) ''PH'' = (Inr a, s') \<and>
      heap s' ! a =
        \<lparr>shape = [1, 3, 1, 2], data = [Num 0, Num 0, Num 981, Num 981, Num 1962, Num 1962]\<rparr>)"
proof -
  let ?ph = "\<lparr>shape = [1, 3, 1, 2],
    data = [Num 0, Num 0, Num 981, Num 981, Num 1962, Num 1962]\<rparr> :: fl ndarray"
  have d: "Dataset ex_K ''wrfout'' = Inr ex_nc"
    by (simp add: ex_K_def)
  have t: "nc_dimensions ex_nc ''Time'' = Some 1"
    by (simp add: ex_nc_def)
  have c: "variables (get_calls ex_K ex_store [''tk'']) ''PH'' = None"
    by code_simp
  have p: "nc_variables ex_nc ''PH'' = Some ?ph"
    by (simp add: ex_nc_def ex_vars_def)
  have w: "wf_arr ?ph" and ne: "shape ?ph \<noteq> []"
    by (simp_all add: wf_arr_def)
  from init_default_time_selection [OF d t] obtain s0 where
    i: "GetVar_init ex_K ''wrfout'' PNone = (Inr s0, [Ev_open ''wrfout''])"
    and ti: "timeidx s0 = PSlice (Some 0) None None"
    and rd: "\<forall>names v ncvar.
              variables (get_calls ex_K s0 names) v = None \<longrightarrow>
              nc_variables ex_nc v = Some ncvar \<longrightarrow> wf_arr ncvar \<longrightarrow> shape ncvar \<noteq> [] \<longrightarrow>
              (\<exists>a s'. GetVar_get ex_K (get_calls ex_K s0 names) v = (Inr a, s') \<and> heap s' ! a = ncvar)"
    by blast
  from i have s0: "s0 = ex_store"
    by (simp add: ex_init)
  from rd [rule_format, OF _ p w ne, of "[''tk'']"] c s0
  have "\<exists>a s'. GetVar_get ex_K (get_calls ex_K ex_store [''tk'']) ''PH'' = (Inr a, s') \<and>
      heap s' ! a = ?ph"
    by simp
  with d t c p i ti s0 show ?thesis
    by simp
qed

section \<open>Claims about the interpolator\<close>

subsection \<open>The missing-data marker\<close>

lemma getitem_masked:
  assumes sm: "setmask v (eq_scalar ix 0) NaN = Inr w"
    and val: "valid_index (shape w) idx"
    and z: "getitem ix (take (length (shape ix)) idx) = 0"
  shows "getitem w idx = NaN"
proof -
  let ?k = "length (shape ix)"
  have pre: "take ?k (shape v) = shape ix"
    using sm by (auto simp: setmask_def eq_scalar_def split: if_splits)
  have w: "w = from_fun (shape v)
      (\<lambda>idx. if getitem (eq_scalar ix 0) (take ?k idx) then NaN else getitem v idx)"
    using sm by (auto simp: setmask_def eq_scalar_def split: if_splits)
  then have sh: "shape w = shape v" by simp
  have "valid_index (take ?k (shape v)) (take ?k idx)"
    using val sh by (simp add: valid_index_take)
  then have "valid_index (shape ix) (take ?k idx)"
    using pre by simp
  then have "getitem (eq_scalar ix 0) (take ?k idx) = (getitem ix (take ?k idx) = 0)"
    by (simp add: eq_scalar_def getitem_map_arr)
  with z val sh show ?thesis
    by (simp add: w getitem_from_fun)
qed

lemma nan_where_zero_T:
  assumes sm: "setmask v (eq_scalar ix 0) NaN = Inr w"
  shows "nan_where_zero ix (T w)"
  unfolding nan_where_zero_def
proof (intro allI impI)
  fix pos
  assume val: "valid_index (shape (T w)) pos"
    and z: "getitem ix (take (length (shape ix)) (rev pos)) = 0"
  have v': "valid_index (shape w) (rev pos)"
    using valid_index_rev [OF val] by simp
  have "getitem (T w) (rev (rev pos)) = getitem w (rev pos)"
    using v' by (rule getitem_T)
  also have "\<dots> = NaN"
    using sm v' z by (rule getitem_masked)
  finally show "getitem (T w) pos = NaN" by simp
qed

lemma interp_loop_nan:
  assumes "interp_loop K self vs acc = (Inr res, s')"
    and "\<forall>a \<in> set acc. nan_where_zero (lev_idx self) a"
  shows "\<forall>a \<in> set res. nan_where_zero (lev_idx self) a"
  using assms
proof (induction vs arbitrary: self acc)
  case Nil
  then show ?case by simp
next
  case (Cons v vs)
  from Cons.prems(1) obtain vi w where
    k: "call_interpz3d K (interpz3d_func self) (T (asfortranarray v)) (pres_f self) (level self)
          (lev_idx self) = Inr vi"
    and m: "setmask vi (eq_scalar (lev_idx self) 0) NaN = Inr w"
    and r: "interp_loop K (iemit self (interp_event self (T v))) vs (acc @ [T w]) = (Inr res, s')"
    by (auto simp: Let_def asfortranarray_def split: sum.splits)
  have "\<forall>a \<in> set (acc @ [T w]). nan_where_zero (lev_idx (iemit self (interp_event self (T v)))) a"
    using Cons.prems(2) nan_where_zero_T [OF m] by (auto simp: iemit_def)
  from Cons.IH [OF r this] show ?case
    by (simp add: iemit_def)
qed

text \<open>
  Claim C6. In every array that \<^verbatim>\<open>interp\<close> returns, for one variable or for several,
  every position at which the bracketing index is the sentinel 0 holds not-a-number.
  A position of the returned array is the reversed position of the kernel's result; the
  index is read there, on the axes it has.
\<close>

theorem interp_marks_missing_levels:
  assumes "Interpz3d_interp K self var = (Inr r, s')"
  shows "case r of
           Single a \<Rightarrow> nan_where_zero (lev_idx self) a
         | Many res \<Rightarrow> \<forall>a \<in> set res. nan_where_zero (lev_idx self) a"
proof (cases "length var = 1")
  case True
  with assms obtain vi w where
    m: "setmask vi (eq_scalar (lev_idx self) 0) NaN = Inr w" and r: "r = Single (T w)"
    by (auto simp: Interpz3d_interp_def Let_def split: sum.splits)
  then show ?thesis
    using nan_where_zero_T [OF m] by simp
next
  case False
  with assms obtain res where l: "interp_loop K self var [] = (Inr res, s')" and r: "r = Many res"
    by (auto simp: Interpz3d_interp_def split: sum.splits prod.splits)
  from interp_loop_nan [OF l] r show ?thesis by simp
qed

theorem interp_marks_missing_levels_witness:
  "fst (Interpz3d_interp ex_K ex_interp_1 [ex_var]) =
     Inr (Single \<lparr>shape = [1, 2], data = [NaN, Num 2]\<rparr>) \<and>
   lev_idx ex_interp_1 = \<lparr>shape = [2, 1], data = [0, 1]\<rparr> \<and>
   valid_index [1, 2] [0, 0] \<and>
   getitem (lev_idx ex_interp_1) (take 2 (rev [0, 0])) = 0 \<and>
   getitem \<lparr>shape = [1, 2], data = [NaN, Num 2]\<rparr> [0, 0] = NaN"
proof -
  let ?a = "\<lparr>shape = [1, 2], data = [NaN, Num 2]\<rparr> :: fl ndarray"
  have f: "fst (Interpz3d_interp ex_K ex_interp_1 [ex_var]) = Inr (Single ?a)"
    by code_simp
  have l: "lev_idx ex_interp_1 = \<lparr>shape = [2, 1], data = [0, 1]\<rparr>"
    by code_simp
  have v: "valid_index (shape ?a) [0, 0]"
    by simp
  have z: "getitem (lev_idx ex_interp_1) (take (length (shape (lev_idx ex_interp_1))) (rev [0, 0])) = 0"
    unfolding l by (simp add: getitem_def)
  from f have "Interpz3d_interp ex_K ex_interp_1 [ex_var] =
      (Inr (Single ?a), snd (Interpz3d_interp ex_K ex_interp_1 [ex_var]))"
    by (simp add: prod_eq_iff)
  from interp_marks_missing_levels [OF this] have "nan_where_zero (lev_idx ex_interp_1) ?a"
    by simp
  with v z have "getitem ?a [0, 0] = NaN"
    unfolding nan_where_zero_def by blast
  with f l v z show ?thesis
    by simp
qed

subsection \<open>Fields and trace of an interpolator\<close>

lemma interp_event_cong:
  "s1\<lparr>itrace := itrace s\<rparr> = s \<Longrightarrow> interp_event s1 v = interp_event s v"
  by (cases s1, cases s) (auto simp: interp_event_def)

lemma interp_loop_trace:
  "interp_loop K self vs acc = (r, s') \<Longrightarrow>
   s'\<lparr>itrace := itrace self\<rparr> = self \<and>
   (\<exists>k\<le>length vs. itrace s' = itrace self @ map (\<lambda>v. interp_event self (T v)) (take k vs) \<and>
      (vs \<noteq> [] \<longrightarrow> 0 < k) \<and> (\<forall>res. r = Inr res \<longrightarrow> k = length vs))"
proof (induction vs arbitrary: self acc)
  case Nil
  then show ?case by auto
next
  case (Cons v vs)
  let ?s1 = "iemit self (interp_event self (T v))"
  have s1: "?s1\<lparr>itrace := itrace self\<rparr> = self"
    by (simp add: iemit_def)
  have t1: "itrace ?s1 = itrace self @ [interp_event self (T v)]"
    by (simp add: iemit_def)
  show ?case
  proof (cases "\<exists>vi w. call_interpz3d K (interpz3d_func self) (T v) (pres_f self) (level self)
          (lev_idx self) = Inr vi \<and> setmask vi (eq_scalar (lev_idx self) 0) NaN = Inr w")
    case True
    then obtain vi w where
      k: "call_interpz3d K (interpz3d_func self) (T v) (pres_f self) (level self)
          (lev_idx self) = Inr vi"
      and m: "setmask vi (eq_scalar (lev_idx self) 0) NaN = Inr w" by blast
    from Cons.prems k m have r: "interp_loop K ?s1 vs (acc @ [T w]) = (r, s')"
      by (simp add: Let_def asfortranarray_def)
    from Cons.IH [OF r] obtain k where
      f: "s'\<lparr>itrace := itrace ?s1\<rparr> = ?s1" and kl: "k \<le> length vs"
      and tr: "itrace s' = itrace ?s1 @ map (\<lambda>v. interp_event ?s1 (T v)) (take k vs)"
      and full: "\<forall>res. r = Inr res \<longrightarrow> k = length vs" by blast
    have ev: "interp_event ?s1 u = interp_event self u" for u
      using s1 by (rule interp_event_cong)
    have "s'\<lparr>itrace := itrace self\<rparr> = self"
      using f s1 by (cases s', cases self) (auto simp: iemit_def)
    moreover have "itrace s' = itrace self @ map (\<lambda>v. interp_event self (T v)) (take (Suc k) (v # vs))"
      using tr t1 ev by simp
    ultimately show ?thesis
      using kl full by (intro conjI exI [of _ "Suc k"]) auto
  next
    case False
    with Cons.prems have "s' = ?s1" and "\<forall>res. r \<noteq> Inr res"
      by (auto simp: Let_def asfortranarray_def split: sum.splits)
    then show ?thesis
      using s1 t1 by (intro conjI exI [of _ "Suc 0"]) auto
  qed
qed

lemma interp_trace:
  "Interpz3d_interp K self var = (r, s') \<Longrightarrow>
   s'\<lparr>itrace := itrace self\<rparr> = self \<and>
   (\<exists>k\<le>length var. itrace s' = itrace self @ map (\<lambda>v. interp_event self (T v)) (take k var) \<and>
      (var \<noteq> [] \<longrightarrow> 0 < k) \<and> (\<forall>res. r = Inr res \<longrightarrow> k = length var))"
proof (cases "length var = 1")
  case True
  then obtain v where v: "var = [v]"
    by (cases var) auto
  assume a: "Interpz3d_interp K self var = (r, s')"
  then have "s' = iemit self (interp_event self (T v))"
    by (auto simp: v Interpz3d_interp_def Let_def asfortranarray_def split: sum.splits)
  then show ?thesis
    by (intro conjI exI [of _ "Suc 0"]) (auto simp: v iemit_def)
next
  case False
  assume a: "Interpz3d_interp K self var = (r, s')"
  obtain r0 where l: "interp_loop K self var [] = (r0, s')" and rr: "\<forall>res. r = Inr res \<longrightarrow> (\<exists>x. r0 = Inr x)"
    using a False by (auto simp: Interpz3d_interp_def split: sum.splits prod.splits)
  from interp_loop_trace [OF l] rr show ?thesis
    by (metis)
qed

lemma init_facts:
  assumes "Interpz3d_init K p lvl = (Inr self, evs)"
  shows "itrace self = evs" and "length (filter is_find_level evs) = 1"
    and "level self = lvl"
    and "interpz3d_func self = (if isinstance_ndarray lvl then Interpz3d_n else Interpz3d_1)"
    and "pres self = p" and "pres_f self = T p"
  using assms
  by (cases lvl; auto simp: Interpz3d_init_def Let_def asfortranarray_def split: sum.splits)+

lemma interp_calls_trace:
  "s'\<lparr>itrace := itrace self\<rparr> = self \<and>
   (\<exists>vs. itrace s' = itrace self @ map (\<lambda>v. interp_event self (T v)) vs)"
  if "s' = interp_calls K self calls"
  using that
proof (induction calls arbitrary: self)
  case Nil
  then show ?case by (auto intro: exI [of _ "[]"])
next
  case (Cons var calls)
  obtain r s1 where i: "Interpz3d_interp K self var = (r, s1)" by force
  from interp_trace [OF i] obtain k where
    f1: "s1\<lparr>itrace := itrace self\<rparr> = self"
    and t1: "itrace s1 = itrace self @ map (\<lambda>v. interp_event self (T v)) (take k var)" by blast
  have "s' = interp_calls K s1 calls"
    using Cons.prems i by simp
  from Cons.IH [OF this] obtain vs where
    f2: "s'\<lparr>itrace := itrace s1\<rparr> = s1"
    and t2: "itrace s' = itrace s1 @ map (\<lambda>v. interp_event s1 (T v)) vs" by blast
  have ev: "interp_event s1 u = interp_event self u" for u
    using f1 by (rule interp_event_cong)
  have "s'\<lparr>itrace := itrace self\<rparr> = self"
    using f1 f2 by (cases s', cases self, cases s1) auto
  moreover have "itrace s' = itrace self @ map (\<lambda>v. interp_event self (T v)) (take k var @ vs)"
    using t1 t2 ev by simp
  ultimately show ?case by blast
qed

lemma ex_init_1:
  "Interpz3d_init ex_K ex_pres (PFloat (Num 850)) = (Inr ex_interp_1, itrace ex_interp_1)"
  by (simp add: ex_interp_1_def Interpz3d_init_def ex_K_def Let_def)

lemma ex_init_n:
  "Interpz3d_init ex_K ex_pres (PArray ex_levels) = (Inr ex_interp_n, itrace ex_interp_n)"
  by (simp add: ex_interp_n_def Interpz3d_init_def ex_K_def Let_def)

lemma ex_contract: "interp_shape_contract ex_K"
  by (auto simp: interp_shape_contract_def ex_K_def)

text \<open>
  Claim C9. The bracketing index is searched exactly once, by the constructor: after
  any sequence of \<^verbatim>\<open>interp\<close> calls, with any number of variables each, the trace of the
  instance holds one call of a search kernel, the field \<^verbatim>\<open>_lev_idx\<close> is the one the
  constructor stored, and every event after the construction is an interpolation
  kernel call that was handed that index.
\<close>

theorem lev_idx_computed_once:
  assumes "Interpz3d_init K p lvl = (Inr self, evs)"
  shows "length (filter is_find_level (itrace (interp_calls K self calls))) = 1 \<and>
         lev_idx (interp_calls K self calls) = lev_idx self \<and>
         (\<exists>vs. itrace (interp_calls K self calls) = evs @ map (\<lambda>v. interp_event self (T v)) vs)"
proof -
  let ?s = "interp_calls K self calls"
  have "?s = interp_calls K self calls" by simp
  from interp_calls_trace [OF this] obtain vs where
    f: "?s\<lparr>itrace := itrace self\<rparr> = self"
    and t: "itrace ?s = itrace self @ map (\<lambda>v. interp_event self (T v)) vs" by blast
  have nf: "\<not> is_find_level (interp_event self u)" for u
    using init_facts(4) [OF assms] by (simp add: interp_event_def)
  have "filter is_find_level (map (\<lambda>v. interp_event self (T v)) vs) = []"
    using nf by (induction vs) auto
  then have "length (filter is_find_level (itrace ?s)) = 1"
    using t init_facts(1,2) [OF assms] by simp
  moreover have "lev_idx ?s = lev_idx self"
    using f by (cases ?s, cases self) auto
  ultimately show ?thesis
    using t init_facts(1) [OF assms] by blast
qed

theorem lev_idx_computed_once_witness:
  "Interpz3d_init ex_K ex_pres (PFloat (Num 850)) = (Inr ex_interp_1, itrace ex_interp_1) \<and>
   length (filter is_find_level
     (itrace (interp_calls ex_K ex_interp_1 [[ex_var], [ex_var, ex_pres], [ex_var_3]]))) = 1 \<and>
   lev_idx (interp_calls ex_K ex_interp_1 [[ex_var], [ex_var, ex_pres], [ex_var_3]]) =
     lev_idx ex_interp_1"
  using lev_idx_computed_once [OF ex_init_1, of "[[ex_var], [ex_var, ex_pres], [ex_var_3]]"]
    ex_init_1
  by blast

text \<open>
  Claim C8, as amended. \<^verbatim>\<open>interp\<close> compares no shapes: a call with at least one variable
  hands the first variable, transposed, to the interpolation kernel whatever its shape,
  and when the kernel raises, \<^verbatim>\<open>interp\<close> raises what the kernel raised. (The claim as
  stated, that a mismatch is detected and reported before the kernel is invoked, fails:
  see the counterexample.)
\<close>

theorem interp_calls_kernel_unchecked:
  assumes "var \<noteq> []"
  shows "prefix (itrace self @ [interp_event self (T (hd var))])
           (itrace (snd (Interpz3d_interp K self var))) \<and>
         (\<forall>e. call_interpz3d K (interpz3d_func self) (T (hd var)) (pres_f self) (level self)
                 (lev_idx self) = Inl e \<longrightarrow>
              fst (Interpz3d_interp K self var) = Inl e)"
proof -
  obtain v vs where var: "var = v # vs"
    using assms by (cases var) auto
  obtain r s' where i: "Interpz3d_interp K self var = (r, s')" by force
  from interp_trace [OF i] assms obtain k where
    t: "itrace s' = itrace self @ map (\<lambda>v. interp_event self (T v)) (take k var)" and k: "0 < k"
    by blast
  from k obtain j where "k = Suc j" by (cases k) auto
  with t have "prefix (itrace self @ [interp_event self (T (hd var))]) (itrace s')"
    by (simp add: var)
  moreover have "fst (Interpz3d_interp K self var) = Inl e"
    if "call_interpz3d K (interpz3d_func self) (T (hd var)) (pres_f self) (level self)
          (lev_idx self) = Inl e" for e
    using that by (cases vs) (simp_all add: var Interpz3d_interp_def Let_def asfortranarray_def)
  ultimately show ?thesis
    using i by simp
qed

theorem interp_calls_kernel_unchecked_witness:
  "[ex_var_3] \<noteq> [] \<and>
   prefix (itrace ex_interp_1 @ [interp_event ex_interp_1 (T ex_var_3)])
     (itrace (snd (Interpz3d_interp ex_K_strict ex_interp_1 [ex_var_3]))) \<and>
   call_interpz3d ex_K_strict (interpz3d_func ex_interp_1) (T ex_var_3) (pres_f ex_interp_1)
     (level ex_interp_1) (lev_idx ex_interp_1) = Inl (KernelError ''shape mismatch'') \<and>
   fst (Interpz3d_interp ex_K_strict ex_interp_1 [ex_var_3]) = Inl (KernelError ''shape mismatch'')"
proof -
  have k: "call_interpz3d ex_K_strict (interpz3d_func ex_interp_1) (T ex_var_3) (pres_f ex_interp_1)
     (level ex_interp_1) (lev_idx ex_interp_1) = Inl (KernelError ''shape mismatch'')"
    by code_simp
  have n: "[ex_var_3] \<noteq> []" by simp
  from interp_calls_kernel_unchecked [OF n, of ex_interp_1 ex_K_strict] k show ?thesis
    by simp
qed

text \<open>
  The counterexample to claim C8 as stated: a variable of three levels on a pressure
  field of two. With a kernel that checks its arguments, the exception is the kernel's
  own and the trace shows the kernel call with the mismatched variable; with a kernel
  that does not check, \<^verbatim>\<open>interp\<close> returns an array and nothing is reported.
\<close>

theorem interp_shape_check_counterexample:
  "shape ex_var_3 = [3, 1, 2] \<and> shape (pres ex_interp_1) = [2, 1, 2] \<and>
   fst (Interpz3d_interp ex_K_strict ex_interp_1 [ex_var_3]) = Inl (KernelError ''shape mismatch'') \<and>
   itrace (snd (Interpz3d_interp ex_K_strict ex_interp_1 [ex_var_3])) =
     itrace ex_interp_1 @
     [Ev_call Interpz3d_1
        [PArray (T ex_var_3), PArray (pres_f ex_interp_1), PFloat (Num 850),
         PIntArray (lev_idx ex_interp_1)]] \<and>
   fst (Interpz3d_interp ex_K ex_interp_1 [ex_var_3]) =
     Inr (Single \<lparr>shape = [1, 2], data = [NaN, Num 2]\<rparr>)"
proof -
  have a: "shape ex_var_3 = [3, 1, 2]"
    by (simp add: ex_var_3_def)
  have b: "shape (pres ex_interp_1) = [2, 1, 2]"
    by code_simp
  have c: "fst (Interpz3d_interp ex_K_strict ex_interp_1 [ex_var_3]) =
      Inl (KernelError ''shape mismatch'')"
    by code_simp
  have d: "itrace (snd (Interpz3d_interp ex_K_strict ex_interp_1 [ex_var_3])) =
     itrace ex_interp_1 @
     [Ev_call Interpz3d_1
        [PArray (T ex_var_3), PArray (pres_f ex_interp_1), PFloat (Num 850),
         PIntArray (lev_idx ex_interp_1)]]"
    by code_simp
  have e: "fst (Interpz3d_interp ex_K ex_interp_1 [ex_var_3]) =
     Inr (Single \<lparr>shape = [1, 2], data = [NaN, Num 2]\<rparr>)"
    by code_simp
  from a b c d e show ?thesis by blast
qed

subsection \<open>What interp returns\<close>

lemma interp_single_iff:
  "fst (Interpz3d_interp K self [v]) = Inr (Single a) \<longleftrightarrow>
   (\<exists>vi w. call_interpz3d K (interpz3d_func self) (T v) (pres_f self) (level self)
               (lev_idx self) = Inr vi \<and>
            setmask vi (eq_scalar (lev_idx self) 0) NaN = Inr w \<and> a = T w)"
  by (auto simp: Interpz3d_interp_def Let_def asfortranarray_def split: sum.splits)

lemma interp_loop_results:
  "interp_loop K self vs acc = (Inr res, s') \<Longrightarrow>
   \<exists>ys. res = acc @ ys \<and> length ys = length vs \<and>
     (\<forall>i<length vs. fst (Interpz3d_interp K self [vs ! i]) = Inr (Single (ys ! i)))"
proof (induction vs arbitrary: self acc)
  case Nil
  then show ?case by simp
next
  case (Cons v vs)
  let ?s1 = "iemit self (interp_event self (T v))"
  from Cons.prems obtain vi w where
    k: "call_interpz3d K (interpz3d_func self) (T v) (pres_f self) (level self)
          (lev_idx self) = Inr vi"
    and m: "setmask vi (eq_scalar (lev_idx self) 0) NaN = Inr w"
    and r: "interp_loop K ?s1 vs (acc @ [T w]) = (Inr res, s')"
    by (auto simp: Let_def asfortranarray_def split: sum.splits)
  from Cons.IH [OF r] obtain ys where
    res: "res = (acc @ [T w]) @ ys" and len: "length ys = length vs"
    and each: "\<forall>i<length vs. fst (Interpz3d_interp K ?s1 [vs ! i]) = Inr (Single (ys ! i))"
    by blast
  have same: "fst (Interpz3d_interp K ?s1 [u]) = Inr (Single a) \<longleftrightarrow>
      fst (Interpz3d_interp K self [u]) = Inr (Single a)" for u a
    by (simp add: interp_single_iff iemit_def)
  have first: "fst (Interpz3d_interp K self [v]) = Inr (Single (T w))"
    using k m by (auto simp: interp_single_iff)
  have "\<forall>i<length (v # vs). fst (Interpz3d_interp K self [(v # vs) ! i]) = Inr (Single ((T w # ys) ! i))"
    using each first same by (auto simp: nth_Cons split: nat.splits)
  with res len show ?case
    by (intro exI [of _ "T w # ys"]) simp
qed

lemma single_shape:
  assumes c: "interp_shape_contract K" and i: "Interpz3d_init K p lvl = (Inr self, evs)"
    and sh: "shape v = [nz, ny, nx]"
    and r: "fst (Interpz3d_interp K self [v]) = Inr (Single a)"
  shows "shape a = interp_shape lvl ny nx"
proof -
  from r obtain vi w where
    k: "call_interpz3d K (interpz3d_func self) (T v) (pres_f self) (level self)
          (lev_idx self) = Inr vi"
    and m: "setmask vi (eq_scalar (lev_idx self) 0) NaN = Inr w" and a: "a = T w"
    by (auto simp: interp_single_iff)
  have w: "shape w = shape vi"
    using m by (auto simp: setmask_def split: if_splits)
  have "shape vi = (if isinstance_ndarray lvl then [nx, ny] @ n_levels lvl else [nx, ny])"
    using k c init_facts(3,4) [OF i] sh
    by (auto simp: interp_shape_contract_def split: if_splits)
  then show ?thesis
    by (simp add: a w interp_shape_def)
qed

text \<open>
  Claim C5, as amended. With exactly one variable \<^verbatim>\<open>interp\<close> returns a bare array, with
  any other number a list with one array per variable, in the order supplied (the
  \<open>k\<close>-th array is what \<^verbatim>\<open>interp\<close> returns for the \<open>k\<close>-th variable alone). For variables of
  shape \<^verbatim>\<open>(nz, ny, nx)\<close> and kernels that return \<^verbatim>\<open>(nx, ny)\<close> and \<^verbatim>\<open>(nx, ny, nlev)\<close>, each
  returned array has shape \<^verbatim>\<open>(ny, nx)\<close> for a scalar level and \<^verbatim>\<open>(nlev, ny, nx)\<close> for an
  array of levels: the levels come first, not last.
\<close>

theorem interp_returns_and_shapes:
  assumes c: "interp_shape_contract K" and i: "Interpz3d_init K p lvl = (Inr self, evs)"
    and sh: "\<forall>v \<in> set var. shape v = [nz, ny, nx]"
    and r: "Interpz3d_interp K self var = (Inr r, s')"
  shows "case r of
           Single a \<Rightarrow> length var = 1 \<and> shape a = interp_shape lvl ny nx
         | Many res \<Rightarrow>
             length var \<noteq> 1 \<and> length res = length var \<and>
             (\<forall>k<length var.
                shape (res ! k) = interp_shape lvl ny nx \<and>
                fst (Interpz3d_interp K self [var ! k]) = Inr (Single (res ! k)))"
proof (cases "length var = 1")
  case True
  then obtain v where v: "var = [v]"
    by (cases var) auto
  from r obtain a where a: "r = Single a"
    by (auto simp: v Interpz3d_interp_def Let_def split: sum.splits)
  with r have "fst (Interpz3d_interp K self [v]) = Inr (Single a)"
    by (simp add: v)
  from single_shape [OF c i _ this] sh a True show ?thesis
    by (simp add: v)
next
  case False
  with r obtain res where l: "interp_loop K self var [] = (Inr res, s')" and rr: "r = Many res"
    by (auto simp: Interpz3d_interp_def split: sum.splits prod.splits)
  from interp_loop_results [OF l] have len: "length res = length var"
    and each: "\<forall>k<length var. fst (Interpz3d_interp K self [var ! k]) = Inr (Single (res ! k))"
    by auto
  have "shape (res ! k) = interp_shape lvl ny nx" if "k < length var" for k
    using single_shape [OF c i _ each [rule_format, OF that]] sh that by simp
  with False len each rr show ?thesis by simp
qed

theorem interp_returns_and_shapes_witness:
  "interp_shape_contract ex_K \<and>
   Interpz3d_init ex_K ex_pres (PArray ex_levels) = (Inr ex_interp_n, itrace ex_interp_n) \<and>
   shape ex_var = [2, 1, 2] \<and> shape ex_pres = [2, 1, 2] \<and>
   (\<exists>res. fst (Interpz3d_interp ex_K ex_interp_n [ex_var, ex_pres]) = Inr (Many res) \<and>
      length res = 2 \<and> shape (res ! 0) = [3, 1, 2] \<and> shape (res ! 1) = [3, 1, 2] \<and>
      fst (Interpz3d_interp ex_K ex_interp_n [ex_pres]) = Inr (Single (res ! 1)))"
proof -
  let ?res = "[\<lparr>shape = [3, 1, 2], data = [NaN, Num 2, NaN, Num 2, NaN, Num 2]\<rparr>,
     \<lparr>shape = [3, 1, 2], data = [NaN, Num 900, NaN, Num 900, NaN, Num 900]\<rparr>] :: fl ndarray list"
  have f: "fst (Interpz3d_interp ex_K ex_interp_n [ex_var, ex_pres]) = Inr (Many ?res)"
    by code_simp
  then have r: "Interpz3d_interp ex_K ex_interp_n [ex_var, ex_pres] =
      (Inr (Many ?res), snd (Interpz3d_interp ex_K ex_interp_n [ex_var, ex_pres]))"
    by (simp add: prod_eq_iff)
  have sh: "\<forall>v \<in> set [ex_var, ex_pres]. shape v = [2, 1, 2]"
    by (simp add: ex_var_def ex_pres_def)
  from interp_returns_and_shapes [OF ex_contract ex_init_n sh r]
  have "\<forall>k<2. shape (?res ! k) = interp_shape (PArray ex_levels) 1 2 \<and>
      fst (Interpz3d_interp ex_K ex_interp_n [[ex_var, ex_pres] ! k]) = Inr (Single (?res ! k))"
    by simp
  from this [rule_format, of 1]
  have "fst (Interpz3d_interp ex_K ex_interp_n [ex_pres]) = Inr (Single (?res ! 1))"
    by simp
  with f ex_contract ex_init_n show ?thesis
    by (intro conjI exI [of _ ?res]) (simp_all add: ex_var_def ex_pres_def)
qed

text \<open>
  The counterexample to claim C5 as stated: three levels on a grid of one row and two
  columns give an array of shape \<^verbatim>\<open>(3, 1, 2)\<close>, not \<^verbatim>\<open>(1, 2, 3)\<close>.
\<close>

theorem interp_sequence_shape_counterexample:
  "interp_shape_contract ex_K \<and> shape ex_var = [2, 1, 2] \<and> shape ex_levels = [3] \<and>
   level ex_interp_n = PArray ex_levels \<and>
   fst (Interpz3d_interp ex_K ex_interp_n [ex_var]) =
     Inr (Single \<lparr>shape = [3, 1, 2], data = [NaN, Num 2, NaN, Num 2, NaN, Num 2]\<rparr>) \<and>
   shape \<lparr>shape = [3, 1, 2], data = [NaN, Num 2, NaN, Num 2, NaN, Num 2]\<rparr> \<noteq> [1, 2, 3]"
proof -
  have a: "fst (Interpz3d_interp ex_K ex_interp_n [ex_var]) =
      Inr (Single \<lparr>shape = [3, 1, 2], data = [NaN, Num 2, NaN, Num 2, NaN, Num 2]\<rparr>)"
    by code_simp
  have b: "level ex_interp_n = PArray ex_levels"
    by (simp add: ex_interp_n_def Interpz3d_init_def ex_K_def Let_def)
  from a b ex_contract show ?thesis
    by (simp add: ex_var_def ex_levels_def)
qed

section \<open>Claims about the recipes\<close>

subsection \<open>The recipe for pres\<close>

lemma get_leaf_trace:
  assumes "n \<noteq> ''slp''" "n \<noteq> ''tk''" "n \<noteq> ''pres''"
  shows "filter is_kernel_call (trace (snd (GetVar_get K s n))) = filter is_kernel_call (trace s)"
  using assms
  by (auto simp: GetVar_get.simps Let_def alloc_def emit_def
      split: option.splits sum.splits prod.splits)

lemma pres_fresh:
  assumes wf: "wf s" and v: "variables s ''pres'' = None"
    and nc: "nc_variables (ncfile s) ''pres'' = None"
    and g: "GetVar_get K s ''pres'' = (Inr a, s')"
  shows "\<exists>p pb ppb. variables s' ''P'' = Some p \<and> variables s' ''PB'' = Some pb \<and>
           np_add (heap s' ! p) (heap s' ! pb) = Inr ppb \<and>
           heap s' ! a = mul_scalar (Num 0.01) ppb \<and>
           filter is_kernel_call (trace s') = filter is_kernel_call (trace s)"
proof -
  from g v nc obtain t where r: "GetVar_pres K s = (Inr a, t)"
    and s': "s' = t\<lparr>variables := (variables t)(''pres'' \<mapsto> a)\<rparr>"
    by (auto simp: GetVar_get.simps split: sum.splits prod.splits)
  from r obtain p s1 pb s2 ppb where
    g1: "GetVar_get K s ''P'' = (Inr p, s1)" and g2: "GetVar_get K s1 ''PB'' = (Inr pb, s2)"
    and add: "np_add (heap s2 ! p) (heap s2 ! pb) = Inr ppb"
    and al: "alloc s2 (mul_scalar (Num 0.01) ppb) = (a, t)"
    by (auto simp: GetVar_pres.simps split: sum.splits prod.splits)
  have o1: "ok_step s (touched ''P'') (Inr p, s1)" using g1 by (rule get_ok_pair)
  have o2: "ok_step s1 (touched ''PB'') (Inr pb, s2)" using g2 by (rule get_ok_pair)
  have wf1: "wf s1" using o1 wf by (rule ok_step_wf)
  have wf2: "wf s2" using o2 wf1 by (rule ok_step_wf)
  have p1: "p < length (heap s1)" using o1 wf by (rule ok_step_addr)
  have pb2: "pb < length (heap s2)" using o2 wf1 by (rule ok_step_addr)
  have f12: "frame s1 s2" using o2 by (rule ok_step_frame)
  have p2: "p < length (heap s2)" using p1 frame_heap_length [OF f12] by simp
  have vp: "variables s2 ''P'' = Some p"
    using get_caches [OF g1] f12 by (rule frame_variables [rotated])
  have vpb: "variables s2 ''PB'' = Some pb"
    using g2 by (rule get_caches)
  have t: "t = s2\<lparr>heap := heap s2 @ [mul_scalar (Num 0.01) ppb]\<rparr>" and a: "a = length (heap s2)"
    using al by (auto simp: alloc_def)
  have tr1: "filter is_kernel_call (trace s1) = filter is_kernel_call (trace s)"
    using get_leaf_trace [of "''P''" K s] g1 by simp
  have tr2: "filter is_kernel_call (trace s2) = filter is_kernel_call (trace s1)"
    using get_leaf_trace [of "''PB''" K s1] g2 by simp
  show ?thesis
    using vp vpb add p2 pb2 tr1 tr2
    by (simp add: s' t a nth_append)
qed

lemma pres_err:
  assumes v: "variables s ''pres'' = None" and nc: "nc_variables (ncfile s) ''pres'' = None"
    and g: "GetVar_get K s ''pres'' = (Inl e, s')"
  shows "variables s' ''pres'' = None"
proof -
  from g v nc have r: "GetVar_pres K s = (Inl e, s')"
    by (auto simp: GetVar_get.simps split: sum.splits prod.splits)
  have "ok_step s {''P'', ''PB''} (Inl e, s')"
    using pres_ok [of s K] r by simp
  from ok_step_dom [OF this] v show ?thesis
    by (auto simp: dom_def)
qed

lemma pres_inv_get:
  assumes wf: "wf s" and inv: "pres_inv s" and nc: "nc_variables (ncfile s) ''pres'' = None"
  shows "pres_inv (snd (GetVar_get K s n))"
proof -
  obtain r s' where g: "GetVar_get K s n = (r, s')" by force
  have o: "ok_step s (touched n) (r, s')" using g by (rule get_ok_pair)
  have fr: "frame s s'" using o by (rule ok_step_frame)
  have "pres_inv s'"
  proof (cases "variables s ''pres''")
    case (Some a)
    with inv obtain p pb ppb where
      c: "variables s ''P'' = Some p" "variables s ''PB'' = Some pb"
      and add: "np_add (heap s ! p) (heap s ! pb) = Inr ppb"
      and h: "heap s ! a = mul_scalar (Num 0.01) ppb"
      by (auto simp: pres_inv_def)
    have l: "a < length (heap s)" "p < length (heap s)" "pb < length (heap s)"
      using wf Some c by (auto simp: wf_def)
    have "variables s' ''pres'' = Some a" "variables s' ''P'' = Some p"
      "variables s' ''PB'' = Some pb"
      using fr Some c by (auto intro: frame_variables)
    moreover have "heap s' ! a = heap s ! a" "heap s' ! p = heap s ! p" "heap s' ! pb = heap s ! pb"
      using fr l by (auto intro: frame_heap_nth)
    ultimately show ?thesis
      using add h by (simp add: pres_inv_def)
  next
    case None
    show ?thesis
    proof (cases "n = ''pres''")
      case True
      show ?thesis
      proof (cases r)
        case (Inl e)
        with g True have "variables s' ''pres'' = None"
          using pres_err [OF None nc] by simp
        then show ?thesis by (simp add: pres_inv_def)
      next
        case (Inr a)
        with g True have g': "GetVar_get K s ''pres'' = (Inr a, s')" by simp
        from pres_fresh [OF wf None nc g'] get_caches [OF g'] show ?thesis
          by (auto simp: pres_inv_def)
      qed
    next
      case False
      then have "''pres'' \<notin> touched n"
        by (auto simp: touched_def)
      with ok_step_dom [OF o] None have "variables s' ''pres'' = None"
        by (auto simp: dom_def)
      then show ?thesis by (simp add: pres_inv_def)
    qed
  qed
  with g show ?thesis by simp
qed

lemma pres_inv_get_calls:
  "wf s \<Longrightarrow> pres_inv s \<Longrightarrow> nc_variables (ncfile s) ''pres'' = None \<Longrightarrow>
   pres_inv (get_calls K s names)"
proof (induction names arbitrary: s)
  case (Cons n names)
  let ?s1 = "snd (GetVar_get K s n)"
  have "ncfile ?s1 = ncfile s"
    using get_frame [of s K n] by (simp add: frame_def)
  with Cons.prems show ?case
    using Cons.IH [of ?s1] pres_inv_get [of s K n] get_wf [of s K n] by simp
qed simp

lemma broadcast_rev_same: "broadcast_rev xs xs = Inr xs"
  by (induction xs) auto

lemma bidx_valid: "valid_index shp idx \<Longrightarrow> bidx shp idx = idx"
proof -
  have "valid_index shp idx \<Longrightarrow> map2 (\<lambda>n i. if n = 1 then 0 else i) shp idx = idx"
    by (induction shp idx rule: valid_index.induct) auto
  then show "valid_index shp idx \<Longrightarrow> bidx shp idx = idx"
    by (simp add: bidx_def valid_index_length)
qed

lemma np_add_same_shape:
  assumes "np_add a b = Inr c" and "shape a = shape b" and "valid_index (shape a) idx"
  shows "getitem c idx = fadd (getitem a idx) (getitem b idx)"
  using assms
  by (auto simp: np_add_def broadcast_shapes_def broadcast_rev_same getitem_from_fun bidx_valid)

lemma np_add_shape: "np_add a b = Inr c \<Longrightarrow> shape a = shape b \<Longrightarrow> shape c = shape a"
  by (auto simp: np_add_def broadcast_shapes_def broadcast_rev_same)

text \<open>
  Claim C2, as amended. In a store built by the constructor on a dataset that has no
  variable named \<^verbatim>\<open>pres\<close>, after any sequence of \<^verbatim>\<open>get\<close> calls: when \<^verbatim>\<open>get('pres')\<close> returns,
  \<^verbatim>\<open>get('P')\<close> and \<^verbatim>\<open>get('PB')\<close> return cached arrays, and the array of \<^verbatim>\<open>pres\<close> is
  \<^verbatim>\<open>0.01 * (P + PB)\<close>, element by element where the two have one shape; the call makes no
  kernel call. (A dataset variable named \<^verbatim>\<open>pres\<close> is read and returned as it is: see the
  counterexample.)
\<close>

theorem pres_recipe:
  assumes i: "GetVar_init K fname tidx = (Inr s0, evs)"
    and nc: "nc_variables (ncfile s0) ''pres'' = None"
    and g: "GetVar_get K (get_calls K s0 names) ''pres'' = (Inr a, s')"
  shows "\<exists>p pb ppb.
           GetVar_get K s' ''P'' = (Inr p, s') \<and> GetVar_get K s' ''PB'' = (Inr pb, s') \<and>
           np_add (heap s' ! p) (heap s' ! pb) = Inr ppb \<and>
           heap s' ! a = mul_scalar (Num 0.01) ppb \<and>
           (shape (heap s' ! p) = shape (heap s' ! pb) \<longrightarrow>
              (\<forall>idx. valid_index (shape (heap s' ! p)) idx \<longrightarrow>
                 getitem (heap s' ! a) idx =
                   fmul (Num 0.01) (fadd (getitem (heap s' ! p) idx) (getitem (heap s' ! pb) idx)))) \<and>
           filter is_kernel_call (trace s') =
             filter is_kernel_call (trace (get_calls K s0 names))"
proof -
  let ?s = "get_calls K s0 names"
  have wf0: "wf s0" and "pres_inv s0"
    using init_wf [OF i] by (simp_all add: pres_inv_def)
  then have wf: "wf ?s" and inv: "pres_inv ?s"
    using nc by (auto intro: get_calls_wf pres_inv_get_calls)
  have nc': "nc_variables (ncfile ?s) ''pres'' = None"
    using get_calls_frame [of s0 K names] nc by (simp add: frame_def)
  have "\<exists>p pb ppb. variables s' ''P'' = Some p \<and> variables s' ''PB'' = Some pb \<and>
      np_add (heap s' ! p) (heap s' ! pb) = Inr ppb \<and>
      heap s' ! a = mul_scalar (Num 0.01) ppb \<and>
      filter is_kernel_call (trace s') = filter is_kernel_call (trace ?s)"
  proof (cases "variables ?s ''pres''")
    case None
    from pres_fresh [OF wf None nc' g] show ?thesis .
  next
    case (Some b)
    with g have "s' = ?s" "a = b"
      by (simp_all add: GetVar_get.simps)
    with inv Some show ?thesis
      by (auto simp: pres_inv_def)
  qed
  then obtain p pb ppb where
    c: "variables s' ''P'' = Some p" "variables s' ''PB'' = Some pb"
    and add: "np_add (heap s' ! p) (heap s' ! pb) = Inr ppb"
    and h: "heap s' ! a = mul_scalar (Num 0.01) ppb"
    and tr: "filter is_kernel_call (trace s') = filter is_kernel_call (trace ?s)"
    by blast
  have "getitem (heap s' ! a) idx =
      fmul (Num 0.01) (fadd (getitem (heap s' ! p) idx) (getitem (heap s' ! pb) idx))"
    if "shape (heap s' ! p) = shape (heap s' ! pb)" "valid_index (shape (heap s' ! p)) idx" for idx
    using np_add_same_shape [OF add that] np_add_shape [OF add that(1)] that(2)
    by (simp add: h mul_scalar_def getitem_map_arr)
  with c add h tr show ?thesis
    by (simp add: GetVar_get.simps)
qed

theorem pres_recipe_witness:
  "GetVar_init ex_K ''wrfout'' PNone = (Inr ex_store, [Ev_open ''wrfout'']) \<and>
   nc_variables (ncfile ex_store) ''pres'' = None \<and>
   GetVar_get ex_K (get_calls ex_K ex_store [''slp'']) ''pres'' = (Inr 11, ex_after_pres) \<and>
   GetVar_get ex_K ex_after_pres ''P'' = (Inr 0, ex_after_pres) \<and>
   GetVar_get ex_K ex_after_pres ''PB'' = (Inr 2, ex_after_pres) \<and>
   shape (heap ex_after_pres ! 0) = shape (heap ex_after_pres ! 2) \<and>
   valid_index (shape (heap ex_after_pres ! 0)) [0, 1, 0, 0] \<and>
   (\<exists>ppb. np_add (heap ex_after_pres ! 0) (heap ex_after_pres ! 2) = Inr ppb \<and>
      heap ex_after_pres ! 11 = mul_scalar (Num 0.01) ppb) \<and>
   getitem (heap ex_after_pres ! 11) [0, 1, 0, 0] =
     fmul (Num 0.01) (fadd (getitem (heap ex_after_pres ! 0) [0, 1, 0, 0])
                           (getitem (heap ex_after_pres ! 2) [0, 1, 0, 0])) \<and>
   filter is_kernel_call (trace ex_after_pres) =
     filter is_kernel_call (trace (get_calls ex_K ex_store [''slp'']))"
proof -
  have nc: "nc_variables (ncfile ex_store) ''pres'' = None"
    by code_simp
  have "fst (GetVar_get ex_K (get_calls ex_K ex_store [''slp'']) ''pres'') = Inr 11"
    by code_simp
  then have g: "GetVar_get ex_K (get_calls ex_K ex_store [''slp'']) ''pres'' = (Inr 11, ex_after_pres)"
    by (simp add: prod_eq_iff ex_after_pres_def)
  have "variables ex_after_pres ''P'' = Some 0" "variables ex_after_pres ''PB'' = Some 2"
    unfolding ex_after_pres_def by code_simp+
  then have c: "GetVar_get ex_K ex_after_pres ''P'' = (Inr 0, ex_after_pres)"
    "GetVar_get ex_K ex_after_pres ''PB'' = (Inr 2, ex_after_pres)"
    by (simp_all add: GetVar_get.simps)
  have sh: "shape (heap ex_after_pres ! 0) = shape (heap ex_after_pres ! 2)"
    unfolding ex_after_pres_def by code_simp
  have vi: "valid_index (shape (heap ex_after_pres ! 0)) [0, 1, 0, 0]"
    unfolding ex_after_pres_def by code_simp
  from pres_recipe [OF ex_init nc g] obtain p pb ppb where
    t: "GetVar_get ex_K ex_after_pres ''P'' = (Inr p, ex_after_pres)"
      "GetVar_get ex_K ex_after_pres ''PB'' = (Inr pb, ex_after_pres)"
      "np_add (heap ex_after_pres ! p) (heap ex_after_pres ! pb) = Inr ppb"
      "heap ex_after_pres ! 11 = mul_scalar (Num 0.01) ppb"
    and el: "shape (heap ex_after_pres ! p) = shape (heap ex_after_pres ! pb) \<longrightarrow>
      (\<forall>idx. valid_index (shape (heap ex_after_pres ! p)) idx \<longrightarrow>
         getitem (heap ex_after_pres ! 11) idx =
           fmul (Num 0.01) (fadd (getitem (heap ex_after_pres ! p) idx)
                                 (getitem (heap ex_after_pres ! pb) idx)))"
    and tr: "filter is_kernel_call (trace ex_after_pres) =
      filter is_kernel_call (trace (get_calls ex_K ex_store [''slp'']))"
    by blast
  from t c have pp: "p = 0" "pb = 2" by simp_all
  from el sh vi have "getitem (heap ex_after_pres ! 11) [0, 1, 0, 0] =
     fmul (Num 0.01) (fadd (getitem (heap ex_after_pres ! 0) [0, 1, 0, 0])
                           (getitem (heap ex_after_pres ! 2) [0, 1, 0, 0]))"
    unfolding pp by blast
  with ex_init nc g c sh vi t(3,4) tr show ?thesis
    unfolding pp by blast
qed

text \<open>
  The counterexample to claim C2 as stated: on a dataset that has a variable \<^verbatim>\<open>pres\<close>,
  \<^verbatim>\<open>get('pres')\<close> returns that variable, which is not a hundredth of the sum of what
  \<^verbatim>\<open>get('P')\<close> and \<^verbatim>\<open>get('PB')\<close> return.
\<close>

theorem pres_from_dataset_counterexample:
  "GetVar_init ex_K ''wrfout_pres'' PNone = (Inr ex_store_b, [Ev_open ''wrfout_pres'']) \<and>
   nc_variables (ncfile ex_store_b) ''pres'' =
     Some \<lparr>shape = [1, 2, 1, 2], data = [Num 1000, Num 900, Num 1000, Num 900]\<rparr> \<and>
   fst (GetVar_get ex_K ex_store_b ''pres'') = Inr 0 \<and>
   GetVar_get ex_K ex_store_b3 ''pres'' = (Inr 0, ex_store_b3) \<and>
   GetVar_get ex_K ex_store_b3 ''P'' = (Inr 1, ex_store_b3) \<and>
   GetVar_get ex_K ex_store_b3 ''PB'' = (Inr 2, ex_store_b3) \<and>
   heap ex_store_b3 ! 0 =
     \<lparr>shape = [1, 2, 1, 2], data = [Num 1000, Num 900, Num 1000, Num 900]\<rparr> \<and>
   np_add (heap ex_store_b3 ! 1) (heap ex_store_b3 ! 2) =
     Inr \<lparr>shape = [1, 2, 1, 2], data = [Num 11, Num 22, Num 33, Num 44]\<rparr> \<and>
   mul_scalar (Num 0.01) \<lparr>shape = [1, 2, 1, 2], data = [Num 11, Num 22, Num 33, Num 44]\<rparr> =
     \<lparr>shape = [1, 2, 1, 2], data = [Num 0.11, Num 0.22, Num 0.33, Num 0.44]\<rparr> \<and>
   heap ex_store_b3 ! 0 \<noteq>
     \<lparr>shape = [1, 2, 1, 2], data = [Num 0.11, Num 0.22, Num 0.33, Num 0.44]\<rparr>"
proof -
  have i: "GetVar_init ex_K ''wrfout_pres'' PNone = (Inr ex_store_b, [Ev_open ''wrfout_pres''])"
    by (simp add: ex_store_b_def GetVar_init_def ex_K_def ex_nc_pres_def Let_def)
  have n: "nc_variables (ncfile ex_store_b) ''pres'' =
     Some \<lparr>shape = [1, 2, 1, 2], data = [Num 1000, Num 900, Num 1000, Num 900]\<rparr>"
    by code_simp
  have f: "fst (GetVar_get ex_K ex_store_b ''pres'') = Inr 0"
    by code_simp
  have "variables ex_store_b3 ''pres'' = Some 0" "variables ex_store_b3 ''P'' = Some 1"
    "variables ex_store_b3 ''PB'' = Some 2"
    unfolding ex_store_b3_def by code_simp+
  then have g: "GetVar_get ex_K ex_store_b3 ''pres'' = (Inr 0, ex_store_b3)"
    "GetVar_get ex_K ex_store_b3 ''P'' = (Inr 1, ex_store_b3)"
    "GetVar_get ex_K ex_store_b3 ''PB'' = (Inr 2, ex_store_b3)"
    by (simp_all add: GetVar_get.simps)
  have h: "heap ex_store_b3 ! 0 =
     \<lparr>shape = [1, 2, 1, 2], data = [Num 1000, Num 900, Num 1000, Num 900]\<rparr>"
    unfolding ex_store_b3_def by code_simp
  have a: "np_add (heap ex_store_b3 ! 1) (heap ex_store_b3 ! 2) =
     Inr \<lparr>shape = [1, 2, 1, 2], data = [Num 11, Num 22, Num 33, Num 44]\<rparr>"
    unfolding ex_store_b3_def by code_simp
  have m: "mul_scalar (Num 0.01) \<lparr>shape = [1, 2, 1, 2], data = [Num 11, Num 22, Num 33, Num 44]\<rparr> =
     \<lparr>shape = [1, 2, 1, 2], data = [Num 0.11, Num 0.22, Num 0.33, Num 0.44]\<rparr>"
    by code_simp
  from i n f g h a m show ?thesis
    by simp
qed

subsection \<open>The recipe for slp\<close>

lemma slp_split:
  "GetVar_slp K self func_slp =
     (case GetVar_get K self ''P'' of
        (Inl e, s1) \<Rightarrow> (Inl e, s1)
      | (Inr p0, s1) \<Rightarrow>
     (case alloc s1 (heap s1 ! p0) of (p, s2) \<Rightarrow>
     (case GetVar_get K s2 ''PB'' of
        (Inl e, s3) \<Rightarrow> (Inl e, s3)
      | (Inr pb, s3) \<Rightarrow>
     (case GetVar_get K s3 ''QVAPOR'' of
        (Inl e, s4) \<Rightarrow> (Inl e, s4)
      | (Inr q0, s4) \<Rightarrow>
     (case alloc s4 (heap s4 ! q0) of (qvapor, s5) \<Rightarrow>
     (case GetVar_get K s5 ''PH'' of
        (Inl e, s6) \<Rightarrow> (Inl e, s6)
      | (Inr ph0, s6) \<Rightarrow>
     (case alloc s6 (heap s6 ! ph0) of (ph, s7) \<Rightarrow>
     (case GetVar_get K s7 ''PHB'' of
        (Inl e, s8) \<Rightarrow> (Inl e, s8)
      | (Inr phb, s8) \<Rightarrow>
     (case GetVar_get K s8 ''tk'' of
        (Inl e, s9) \<Rightarrow> (Inl e, s9)
      | (Inr tk, s9) \<Rightarrow> slp_tail K s9 func_slp p pb qvapor ph phb tk)))))))))"
  unfolding slp_tail_def by (rule GetVar_slp.simps)

lemma slp_tail_success:
  assumes "slp_tail K s9 k p pb q ph phb tk = (Inr a, s')"
    and "p \<noteq> q" and "ph \<noteq> q" and "q < length (heap s9)"
  shows "\<exists>Q pha tka pa.
           setmask (heap s9 ! q) (lt_scalar (heap s9 ! q) (Num 0)) (Num 0) = Inr Q \<and>
           last (trace s') = Ev_call k [PArray pha, PArray tka, PArray pa, PArray (T (squeeze Q))] \<and>
           variables s' = variables s9 \<and>
           (\<forall>b. b \<noteq> p \<longrightarrow> b \<noteq> q \<longrightarrow> b \<noteq> ph \<longrightarrow> b < length (heap s9) \<longrightarrow> heap s' ! b = heap s9 ! b)"
  using assms
  by (auto simp: slp_tail_def Let_def store_def emit_def alloc_def nth_append asfortranarray_def
      split: sum.splits)

lemma alloc_copy:
  assumes "alloc s (heap s ! b) = (c, t)" and "b < length (heap s)"
  shows "c = length (heap s)" and "heap t ! c = heap s ! b" and "frame s t"
    and "variables t = variables s" and "length (heap t) = Suc (length (heap s))"
  using assms by (auto simp: alloc_def frame_def nth_append)

lemma wf_alloc: "wf s \<Longrightarrow> alloc s v = (c, t) \<Longrightarrow> wf t"
  by (auto simp: wf_def alloc_def less_Suc_eq)

lemma slp_success:
  assumes wf: "wf s" and r: "GetVar_slp K s k = (Inr a, s')"
  shows "\<exists>q0 Q pha tka pa.
           variables s' ''QVAPOR'' = Some q0 \<and>
           setmask (heap s' ! q0) (lt_scalar (heap s' ! q0) (Num 0)) (Num 0) = Inr Q \<and>
           last (trace s') = Ev_call k [PArray pha, PArray tka, PArray pa, PArray (T (squeeze Q))]"
proof -
  from r obtain p0 s1 p s2 pb s3 q0 s4 q s5 ph0 s6 ph s7 phb s8 tk s9 where
    g1: "GetVar_get K s ''P'' = (Inr p0, s1)" and a2: "alloc s1 (heap s1 ! p0) = (p, s2)"
    and g3: "GetVar_get K s2 ''PB'' = (Inr pb, s3)"
    and g4: "GetVar_get K s3 ''QVAPOR'' = (Inr q0, s4)" and a5: "alloc s4 (heap s4 ! q0) = (q, s5)"
    and g6: "GetVar_get K s5 ''PH'' = (Inr ph0, s6)" and a7: "alloc s6 (heap s6 ! ph0) = (ph, s7)"
    and g8: "GetVar_get K s7 ''PHB'' = (Inr phb, s8)"
    and g9: "GetVar_get K s8 ''tk'' = (Inr tk, s9)"
    and tl: "slp_tail K s9 k p pb q ph phb tk = (Inr a, s')"
    unfolding slp_split by (auto split: sum.splits prod.splits)
  note o1 = get_ok_pair [OF g1] and o3 = get_ok_pair [OF g3] and o4 = get_ok_pair [OF g4]
    and o6 = get_ok_pair [OF g6] and o8 = get_ok_pair [OF g8] and o9 = get_ok_pair [OF g9]
  have wf1: "wf s1" using o1 wf by (rule ok_step_wf)
  have p0: "p0 < length (heap s1)" using o1 wf by (rule ok_step_addr)
  note c2 = alloc_copy [OF a2 p0]
  have wf2: "wf s2" using wf1 a2 by (rule wf_alloc)
  have wf3: "wf s3" using o3 wf2 by (rule ok_step_wf)
  have wf4: "wf s4" using o4 wf3 by (rule ok_step_wf)
  have q0: "q0 < length (heap s4)" using o4 wf3 by (rule ok_step_addr)
  note c5 = alloc_copy [OF a5 q0]
  have wf5: "wf s5" using wf4 a5 by (rule wf_alloc)
  have wf6: "wf s6" using o6 wf5 by (rule ok_step_wf)
  have ph0: "ph0 < length (heap s6)" using o6 wf5 by (rule ok_step_addr)
  note c7 = alloc_copy [OF a7 ph0]
  have f24: "frame s2 s4"
    using o3 o4 by (blast intro: frame_trans ok_step_frame)
  have f59: "frame s5 s9"
    using o6 c7(3) o8 o9 by (blast intro: frame_trans ok_step_frame)
  have l24: "length (heap s2) \<le> length (heap s4)"
    using f24 by (rule frame_heap_length)
  have l56: "length (heap s5) \<le> length (heap s6)"
    using o6 by (blast intro: frame_heap_length ok_step_frame)
  have l59: "length (heap s5) \<le> length (heap s9)"
    using f59 by (rule frame_heap_length)
  have pq: "p \<noteq> q" using c2 c5 l24 by simp
  have phq: "ph \<noteq> q" using c5 c7 l56 by simp
  have q9: "q < length (heap s9)" using c5 l59 by simp
  have q0p: "q0 \<noteq> p"
  proof -
    have "ok_step s2 (touched ''PB'' \<union> touched ''QVAPOR'') (Inr q0, s4)"
      using o3 o4 by (rule ok_step_trans)
    from ok_step_new [OF this get_caches [OF g4]]
    have "variables s1 ''QVAPOR'' = Some q0 \<or> length (heap s2) \<le> q0"
      using c2(4) by simp
    then show ?thesis
    proof
      assume "variables s1 ''QVAPOR'' = Some q0"
      with wf1 have "q0 < length (heap s1)" by (auto simp: wf_def)
      with c2 show ?thesis by simp
    next
      assume "length (heap s2) \<le> q0"
      with c2 show ?thesis by simp
    qed
  qed
  have q0q: "q0 \<noteq> q" and q0ph: "q0 \<noteq> ph"
    using q0 c5 c7 l56 by simp_all
  have q09: "q0 < length (heap s9)" using q0 c5 l59 by simp
  from slp_tail_success [OF tl pq phq q9] obtain Q pha tka pa where
    m: "setmask (heap s9 ! q) (lt_scalar (heap s9 ! q) (Num 0)) (Num 0) = Inr Q"
    and ev: "last (trace s') = Ev_call k [PArray pha, PArray tka, PArray pa, PArray (T (squeeze Q))]"
    and vs: "variables s' = variables s9"
    and keep: "\<forall>b. b \<noteq> p \<longrightarrow> b \<noteq> q \<longrightarrow> b \<noteq> ph \<longrightarrow> b < length (heap s9) \<longrightarrow> heap s' ! b = heap s9 ! b"
    by blast
  have h9q: "heap s9 ! q = heap s4 ! q0"
    using frame_heap_nth [OF f59, of q] c5 by simp
  have f49: "frame s4 s9"
    using c5(3) f59 by (rule frame_trans)
  have h9q0: "heap s9 ! q0 = heap s4 ! q0"
    using f49 q0 by (rule frame_heap_nth)
  have "heap s' ! q0 = heap s9 ! q0"
    using keep q0p q0q q0ph q09 by blast
  with h9q h9q0 have same: "heap s' ! q0 = heap s9 ! q" by simp
  have "variables s9 ''QVAPOR'' = Some q0"
    using f49 get_caches [OF g4] by (rule frame_variables)
  with vs m ev same show ?thesis by auto
qed

lemma prod_list_squeeze: "prod_list (filter (\<lambda>n. n \<noteq> 1) shp) = prod_list shp"
  by (induction shp) auto

lemma clamp_elementwise:
  assumes "setmask A (lt_scalar A (Num 0)) (Num 0) = Inr Q"
  shows "shape Q = shape A"
    and "\<forall>idx. valid_index (shape A) idx \<longrightarrow>
           getitem Q idx = (if flt (getitem A idx) (Num 0) then Num 0 else getitem A idx)"
    and "\<forall>x \<in> set (data (T (squeeze Q))). \<not> flt x (Num 0)"
proof -
  have Q: "Q = from_fun (shape A)
      (\<lambda>idx. if getitem (lt_scalar A (Num 0)) (take (length (shape A)) idx) then Num 0
              else getitem A idx)"
    using assms by (auto simp: setmask_def lt_scalar_def split: if_splits)
  show sh: "shape Q = shape A"
    by (simp add: Q)
  have el: "getitem Q idx = (if flt (getitem A idx) (Num 0) then Num 0 else getitem A idx)"
    if "valid_index (shape A) idx" for idx
    using that valid_index_length [OF that]
    by (simp add: Q getitem_from_fun lt_scalar_def getitem_map_arr)
  then show "\<forall>idx. valid_index (shape A) idx \<longrightarrow>
           getitem Q idx = (if flt (getitem A idx) (Num 0) then Num 0 else getitem A idx)"
    by blast
  have nn: "\<not> flt (data Q ! j) (Num 0)" if "j < prod_list (shape A)" for j
  proof -
    have "data Q ! j = getitem Q (unravel (shape A) j)"
      using that by (simp add: getitem_def sh ravel_unravel)
    also have "\<dots> = (if flt (getitem A (unravel (shape A) j)) (Num 0) then Num 0
        else getitem A (unravel (shape A) j))"
      using that by (intro el valid_unravel)
    finally show ?thesis by auto
  qed
  show "\<forall>x \<in> set (data (T (squeeze Q))). \<not> flt x (Num 0)"
  proof
    fix x assume "x \<in> set (data (T (squeeze Q)))"
    then obtain idx where v: "valid_index (rev (shape (squeeze Q))) idx"
      and x: "x = getitem (squeeze Q) (rev idx)"
      unfolding T_def by (auto dest: set_data_from_fun)
    have "valid_index (shape (squeeze Q)) (rev idx)"
      using valid_index_rev [OF v] by simp
    then have "ravel (shape (squeeze Q)) (rev idx) < prod_list (shape (squeeze Q))"
      by (rule ravel_less)
    then have "ravel (shape (squeeze Q)) (rev idx) < prod_list (shape A)"
      using prod_list_squeeze [of "shape A"] by (simp add: squeeze_def sh)
    from nn [OF this] show "\<not> flt x (Num 0)"
      by (simp add: x getitem_def squeeze_def)
  qed
qed

lemma clamped_step_variables [simp]:
  "clamped_step s (r, t\<lparr>variables := vs\<rparr>) = clamped_step s (r, t)"
  by (simp add: clamped_step_def)

lemma clamped_refl: "clamped_step s (r, s)"
  by (simp add: clamped_step_def)

lemma clamped_trans:
  "clamped_step s (r1, s1) \<Longrightarrow> clamped_step s1 (r2, s2) \<Longrightarrow> clamped_step s (r2, s2)"
  unfolding clamped_step_def
  by (elim exE conjE, rule_tac x = "evs @ evsa" in exI) auto

lemma clamped_result: "clamped_step s (r, s1) \<Longrightarrow> clamped_step s (r', s1)"
  by (simp add: clamped_step_def)

lemma clamped_same_trace: "clamped_step s (r, s1) \<Longrightarrow> trace t = trace s1 \<Longrightarrow> clamped_step s (r', t)"
  by (simp add: clamped_step_def)

lemma clamped_emit:
  "clamped_step s (r, s1) \<Longrightarrow> slp_call_clamped ev \<Longrightarrow> clamped_step s (r', emit s1 ev)"
  unfolding clamped_step_def
  by (elim exE conjE, rule_tac x = "evs @ [ev]" in exI) (auto simp: emit_def)

lemma trace_alloc: "alloc s v = (a, t) \<Longrightarrow> trace t = trace s"
  by (auto simp: alloc_def)

lemma trace_store [simp]: "trace (store s a v) = trace s"
  by (simp add: store_def)

lemma get_leaf_clamped:
  assumes "n \<noteq> ''slp''" "n \<noteq> ''tk''" "n \<noteq> ''pres''"
  shows "clamped_step s (GetVar_get K s n)"
proof -
  have e: "clamped_step s (r, emit s (Ev_read n i))" for r i
    using clamped_refl [of s r] by (rule clamped_emit) simp
  have a: "clamped_step s (r, t)" if "alloc (emit s (Ev_read n i)) v = (b, t)" for r i v b t
    using e trace_alloc [OF that] by (rule clamped_same_trace)
  show ?thesis
    using assms
    by (auto simp: GetVar_get.simps Let_def clamped_refl e a
        split: option.splits sum.splits prod.splits)
qed

lemma pres_clamped: "clamped_step s (GetVar_pres K s)"
proof -
  obtain r1 s1 where g1: "GetVar_get K s ''P'' = (r1, s1)" by force
  obtain r2 s2 where g2: "GetVar_get K s1 ''PB'' = (r2, s2)" by force
  have o1: "clamped_step s (r1, s1)" using get_leaf_clamped [of "''P''" s K] g1 by simp
  have "clamped_step s1 (r2, s2)" using get_leaf_clamped [of "''PB''" s1 K] g2 by simp
  with o1 have o2: "clamped_step s (r2, s2)" by (rule clamped_trans)
  have f: "clamped_step s (r, t)" if "alloc s2 v = (a, t)" for r v a t
    using o2 trace_alloc [OF that] by (rule clamped_same_trace)
  show ?thesis
    by (auto simp: GetVar_pres.simps g1 g2 o1 [THEN clamped_result] o2 [THEN clamped_result] f
        split: sum.splits prod.splits)
qed

lemma tk_clamped: "clamped_step s (GetVar_tk K s k)"
proof -
  obtain r1 s1 where g1: "GetVar_get K s ''P'' = (r1, s1)" by force
  obtain r2 s2 where g2: "GetVar_get K s1 ''PB'' = (r2, s2)" by force
  obtain r3 s3 where g3: "GetVar_get K s2 ''T'' = (r3, s3)" by force
  have o1: "clamped_step s (r1, s1)" using get_leaf_clamped [of "''P''" s K] g1 by simp
  have "clamped_step s1 (r2, s2)" using get_leaf_clamped [of "''PB''" s1 K] g2 by simp
  with o1 have o2: "clamped_step s (r2, s2)" by (rule clamped_trans)
  have "clamped_step s2 (r3, s3)" using get_leaf_clamped [of "''T''" s2 K] g3 by simp
  with o2 have o3: "clamped_step s (r3, s3)" by (rule clamped_trans)
  have o4: "clamped_step s (r, emit s3 (Ev_call k [PArray a, PArray b]))" for r a b
    using o3 by (rule clamped_emit) simp
  have f: "clamped_step s (r, t)"
    if "alloc (emit s3 (Ev_call k [PArray a, PArray b])) v = (c, t)" for r v a b c t
    using o4 trace_alloc [OF that] by (rule clamped_same_trace)
  show ?thesis
    by (auto simp: GetVar_tk.simps g1 g2 g3 Let_def o1 [THEN clamped_result]
        o2 [THEN clamped_result] o3 [THEN clamped_result] o4 f
        split: sum.splits prod.splits)
qed

lemma clamped_cache:
  "clamped_step s res \<Longrightarrow>
   clamped_step s (case res of (Inl e, t) \<Rightarrow> (Inl e, t)
      | (Inr var, t) \<Rightarrow> (Inr var, t\<lparr>variables := (variables t)(n \<mapsto> var)\<rparr>))"
  by (auto simp: clamped_step_def split: prod.splits sum.splits)

lemma get_read_clamped:
  "clamped_step s
     (let s1 = emit s (Ev_read n i) in
      case index0 ncvar i of
        Inl e \<Rightarrow> (Inl e, s1)
      | Inr v \<Rightarrow> (case alloc s1 v of (a, s2) \<Rightarrow> (Inr a, s2)))"
proof -
  have e: "clamped_step s (r, emit s (Ev_read n i))" for r
    using clamped_refl [of s r] by (rule clamped_emit) simp
  have a: "clamped_step s (r, t)" if "alloc (emit s (Ev_read n i)) v = (b, t)" for r v b t
    using e trace_alloc [OF that] by (rule clamped_same_trace)
  show ?thesis
    by (auto simp: Let_def e a split: sum.splits prod.splits)
qed

lemma get_nonslp_clamped:
  assumes "n \<noteq> ''slp''"
  shows "clamped_step s (GetVar_get K s n)"
proof -
  consider "n = ''tk''" | "n = ''pres''" | "n \<noteq> ''slp''" "n \<noteq> ''tk''" "n \<noteq> ''pres''"
    using assms by blast
  then show ?thesis
  proof cases
    case 3
    then show ?thesis by (rule get_leaf_clamped)
  next
    case 1
    show ?thesis
      unfolding 1
      by (auto simp: GetVar_get.simps clamped_refl split: option.splits
          intro!: clamped_cache tk_clamped get_read_clamped)
  next
    case 2
    show ?thesis
      unfolding 2
      by (auto simp: GetVar_get.simps clamped_refl split: option.splits
          intro!: clamped_cache pres_clamped get_read_clamped)
  qed
qed

lemma clamped_trans':
  "clamped_step s (r1, s1) \<Longrightarrow> clamped_step s1 res \<Longrightarrow> clamped_step s res"
  by (cases res) (auto intro: clamped_trans)

lemma slp_tail_clamped:
  assumes q: "q < length (heap s9)" and phq: "ph \<noteq> q"
  shows "clamped_step s9 (slp_tail K s9 k p pb q ph phb tk)"
proof -
  have key: "\<not> flt x (Num 0)"
    if "setmask A (lt_scalar A (Num 0)) (Num 0) = Inr Q" "x \<in> set (data (T (squeeze Q)))" for A Q x
    using clamp_elementwise(3) [OF that(1)] that(2) by blast
  show ?thesis
    using q phq
    by (auto simp: clamped_step_def slp_tail_def Let_def asfortranarray_def store_def emit_def
        alloc_def split: sum.splits dest: key)
qed

lemma slp_clamped: "clamped_step s (GetVar_slp K s k)"
proof -
  obtain r1 s1 where g1: "GetVar_get K s ''P'' = (r1, s1)" by force
  obtain p s2 where a2: "alloc s1 (heap s1 ! projr r1) = (p, s2)" by force
  obtain r3 s3 where g3: "GetVar_get K s2 ''PB'' = (r3, s3)" by force
  obtain r4 s4 where g4: "GetVar_get K s3 ''QVAPOR'' = (r4, s4)" by force
  obtain q s5 where a5: "alloc s4 (heap s4 ! projr r4) = (q, s5)" by force
  obtain r6 s6 where g6: "GetVar_get K s5 ''PH'' = (r6, s6)" by force
  obtain ph s7 where a7: "alloc s6 (heap s6 ! projr r6) = (ph, s7)" by force
  obtain r8 s8 where g8: "GetVar_get K s7 ''PHB'' = (r8, s8)" by force
  obtain r9 s9 where g9: "GetVar_get K s8 ''tk'' = (r9, s9)" by force
  have a2': "alloc s1 (heap s1 ! x) = (p, s2)" if "r1 = Inr x" for x
    using a2 that by simp
  have a5': "alloc s4 (heap s4 ! x) = (q, s5)" if "r4 = Inr x" for x
    using a5 that by simp
  have a7': "alloc s6 (heap s6 ! x) = (ph, s7)" if "r6 = Inr x" for x
    using a7 that by simp
  have c1: "clamped_step s (r, s1)" for r
    using get_nonslp_clamped [of "''P''" s K] g1 by (auto intro: clamped_result)
  have c2: "clamped_step s (r, s2)" for r
    using c1 trace_alloc [OF a2] by (rule clamped_same_trace)
  have "clamped_step s2 (r3, s3)"
    using get_nonslp_clamped [of "''PB''" s2 K] g3 by simp
  with c2 have c3: "clamped_step s (r, s3)" for r
    by (blast intro: clamped_trans clamped_result)
  have "clamped_step s3 (r4, s4)"
    using get_nonslp_clamped [of "''QVAPOR''" s3 K] g4 by simp
  with c3 have c4: "clamped_step s (r, s4)" for r
    by (blast intro: clamped_trans clamped_result)
  have c5: "clamped_step s (r, s5)" for r
    using c4 trace_alloc [OF a5] by (rule clamped_same_trace)
  have "clamped_step s5 (r6, s6)"
    using get_nonslp_clamped [of "''PH''" s5 K] g6 by simp
  with c5 have c6: "clamped_step s (r, s6)" for r
    by (blast intro: clamped_trans clamped_result)
  have c7: "clamped_step s (r, s7)" for r
    using c6 trace_alloc [OF a7] by (rule clamped_same_trace)
  have "clamped_step s7 (r8, s8)"
    using get_nonslp_clamped [of "''PHB''" s7 K] g8 by simp
  with c7 have c8: "clamped_step s (r, s8)" for r
    by (blast intro: clamped_trans clamped_result)
  have "clamped_step s8 (r9, s9)"
    using get_nonslp_clamped [of "''tk''" s8 K] g9 by simp
  with c8 have c9: "clamped_step s (r, s9)" for r
    by (blast intro: clamped_trans clamped_result)
  have l5: "q = length (heap s4)" "length (heap s5) = Suc q"
    using a5 by (auto simp: alloc_def)
  have l6: "length (heap s5) \<le> length (heap s6)"
    using get_ok_pair [OF g6] by (blast intro: frame_heap_length ok_step_frame)
  have l7: "ph = length (heap s6)" "length (heap s7) = Suc ph"
    using a7 by (auto simp: alloc_def)
  have l9: "length (heap s7) \<le> length (heap s9)"
    using get_ok_pair [OF g8] get_ok_pair [OF g9]
    by (blast intro: frame_heap_length ok_step_frame frame_trans)
  have q9: "q < length (heap s9)" and phq: "ph \<noteq> q"
    using l5 l6 l7 l9 by simp_all
  have t: "clamped_step s (slp_tail K s9 k p pb' q ph phb' tk')" for pb' phb' tk'
    using c9 slp_tail_clamped [OF q9 phq] by (rule clamped_trans')
  show ?thesis
    unfolding slp_split
    by (auto simp: g1 a2' g3 g4 a5' g6 a7' g8 g9 c1 c3 c4 c6 c8 c9 t
        split: sum.splits prod.splits)
qed

lemma get_clamped: "clamped_step s (GetVar_get K s n)"
proof (cases "n = ''slp''")
  case False
  then show ?thesis by (rule get_nonslp_clamped)
next
  case True
  show ?thesis
    unfolding True
    by (auto simp: GetVar_get.simps clamped_refl split: option.splits
        intro!: clamped_cache slp_clamped get_read_clamped)
qed

text \<open>
  Claim C7. A call of \<^verbatim>\<open>get\<close> on a consistent store, for \<^verbatim>\<open>slp\<close> or any other name and
  whatever it returns or raises, leaves every name that was cached at its address and
  the array at that address as it was; and every sea-level-pressure kernel call it
  makes, whether the kernel then returns or raises, is handed a mixing ratio with no
  element below zero. When the recipe for \<^verbatim>\<open>slp\<close> runs and returns, the last event is
  that kernel call, and its mixing-ratio argument is the transposed, squeezed array
  \<open>Q\<close>, where \<open>Q\<close> is the cached \<^verbatim>\<open>QVAPOR\<close> with every element below zero replaced by zero,
  while the cached \<^verbatim>\<open>QVAPOR\<close> keeps its values.
\<close>

theorem slp_clamps_and_keeps_cache:
  assumes wf: "wf s" and g: "GetVar_get K s n = (r, s')"
  shows "(\<forall>m b. variables s m = Some b \<longrightarrow> variables s' m = Some b \<and> heap s' ! b = heap s ! b) \<and>
         (\<exists>evs. trace s' = trace s @ evs \<and> (\<forall>ev \<in> set evs. slp_call_clamped ev)) \<and>
         (n = ''slp'' \<longrightarrow> variables s ''slp'' = None \<longrightarrow>
          nc_variables (ncfile s) ''slp'' = None \<longrightarrow>
          (\<forall>a. r = Inr a \<longrightarrow>
            (\<exists>q0 Q k pha tka pa.
               variables s' ''QVAPOR'' = Some q0 \<and>
               setmask (heap s' ! q0) (lt_scalar (heap s' ! q0) (Num 0)) (Num 0) = Inr Q \<and>
               shape Q = shape (heap s' ! q0) \<and>
               (\<forall>idx. valid_index (shape Q) idx \<longrightarrow>
                  getitem Q idx =
                    (if flt (getitem (heap s' ! q0) idx) (Num 0) then Num 0
                     else getitem (heap s' ! q0) idx)) \<and>
               last (trace s') =
                 Ev_call k [PArray pha, PArray tka, PArray pa, PArray (T (squeeze Q))])))"
proof (intro conjI allI impI)
  have fr: "frame s s'"
    using get_ok_pair [OF g] by (rule ok_step_frame)
  fix m b assume c: "variables s m = Some b"
  show "variables s' m = Some b"
    using fr c by (rule frame_variables)
  have "b < length (heap s)"
    using wf c by (auto simp: wf_def)
  with fr show "heap s' ! b = heap s ! b"
    by (rule frame_heap_nth)
next
  show "\<exists>evs. trace s' = trace s @ evs \<and> (\<forall>ev \<in> set evs. slp_call_clamped ev)"
    using get_clamped [of s K n] g by (simp add: clamped_step_def)
next
  fix a
  assume n: "n = ''slp''" and v: "variables s ''slp'' = None"
    and nc: "nc_variables (ncfile s) ''slp'' = None" and ra: "r = Inr a"
  from g n v nc ra obtain k t where r: "GetVar_slp K s k = (Inr a, t)"
    and s': "s' = t\<lparr>variables := (variables t)(''slp'' \<mapsto> a)\<rparr>"
    by (auto simp: GetVar_get.simps split: sum.splits prod.splits option.splits)
  from slp_success [OF wf r] obtain q0 Q pha tka pa where
    c: "variables t ''QVAPOR'' = Some q0"
    and m: "setmask (heap t ! q0) (lt_scalar (heap t ! q0) (Num 0)) (Num 0) = Inr Q"
    and ev: "last (trace t) = Ev_call k [PArray pha, PArray tka, PArray pa, PArray (T (squeeze Q))]"
    by blast
  note e = clamp_elementwise(1,2) [OF m]
  show "\<exists>q0 Q k pha tka pa.
               variables s' ''QVAPOR'' = Some q0 \<and>
               setmask (heap s' ! q0) (lt_scalar (heap s' ! q0) (Num 0)) (Num 0) = Inr Q \<and>
               shape Q = shape (heap s' ! q0) \<and>
               (\<forall>idx. valid_index (shape Q) idx \<longrightarrow>
                  getitem Q idx =
                    (if flt (getitem (heap s' ! q0) idx) (Num 0) then Num 0
                     else getitem (heap s' ! q0) idx)) \<and>
               last (trace s') =
                 Ev_call k [PArray pha, PArray tka, PArray pa, PArray (T (squeeze Q))]"
    using c m ev e by (intro exI [of _ q0] exI [of _ Q] exI [of _ k] exI [of _ pha]
        exI [of _ tka] exI [of _ pa]) (simp add: s')
qed

theorem slp_clamps_and_keeps_cache_witness:
  "wf ex_store_pres \<and> variables ex_store_pres ''P'' = Some 0 \<and>
   variables ex_store_pres ''slp'' = None \<and>
   nc_variables (ncfile ex_store_pres) ''slp'' = None \<and>
   GetVar_get ex_K ex_store_pres ''slp'' = (Inr 11, ex_after_slp) \<and>
   variables ex_after_slp ''P'' = Some 0 \<and>
   heap ex_after_slp ! 0 = heap ex_store_pres ! 0 \<and>
   heap ex_after_slp ! 4 =
     \<lparr>shape = [1, 2, 1, 2], data = [Num (- 1), Num 2, Num 0, Num (- 3)]\<rparr> \<and>
   (\<exists>evs. trace ex_after_slp = trace ex_store_pres @ evs \<and> slp_call_clamped (last evs)) \<and>
   (\<exists>Q. variables ex_after_slp ''QVAPOR'' = Some 4 \<and>
      setmask (heap ex_after_slp ! 4) (lt_scalar (heap ex_after_slp ! 4) (Num 0)) (Num 0) = Inr Q \<and>
      T (squeeze Q) = \<lparr>shape = [2, 2], data = [Num 0, Num 0, Num 2, Num 0]\<rparr> \<and>
      last (trace ex_after_slp) =
        Ev_call Dcomputeseaprs
          [PArray \<lparr>shape = [2, 2], data = [Num 50, Num 150, Num 50, Num 150]\<rparr>,
           PArray \<lparr>shape = [2, 2], data = [Num 300, Num 302, Num 301, Num 303]\<rparr>,
           PArray \<lparr>shape = [2, 2], data = [Num 11, Num 33, Num 22, Num 44]\<rparr>,
           PArray (T (squeeze Q))])"
proof -
  have p: "variables ex_store_pres ''P'' = Some 0"
    unfolding ex_store_pres_def by code_simp
  have v: "variables ex_store_pres ''slp'' = None"
    unfolding ex_store_pres_def by code_simp
  have nc: "nc_variables (ncfile ex_store_pres) ''slp'' = None"
    unfolding ex_store_pres_def by code_simp
  have "fst (GetVar_get ex_K ex_store_pres ''slp'') = Inr 11"
    unfolding ex_store_pres_def by code_simp
  then have g: "GetVar_get ex_K ex_store_pres ''slp'' = (Inr 11, ex_after_slp)"
    by (simp add: prod_eq_iff ex_after_slp_def)
  have q: "variables ex_after_slp ''QVAPOR'' = Some 4"
    unfolding ex_after_slp_def ex_store_pres_def by code_simp
  have h4: "heap ex_after_slp ! 4 =
      \<lparr>shape = [1, 2, 1, 2], data = [Num (- 1), Num 2, Num 0, Num (- 3)]\<rparr>"
    unfolding ex_after_slp_def ex_store_pres_def by code_simp
  have l: "last (trace ex_after_slp) =
        Ev_call Dcomputeseaprs
          [PArray \<lparr>shape = [2, 2], data = [Num 50, Num 150, Num 50, Num 150]\<rparr>,
           PArray \<lparr>shape = [2, 2], data = [Num 300, Num 302, Num 301, Num 303]\<rparr>,
           PArray \<lparr>shape = [2, 2], data = [Num 11, Num 33, Num 22, Num 44]\<rparr>,
           PArray \<lparr>shape = [2, 2], data = [Num 0, Num 0, Num 2, Num 0]\<rparr>]"
    unfolding ex_after_slp_def ex_store_pres_def by code_simp
  have ne: "trace ex_after_slp \<noteq> trace ex_store_pres"
    unfolding ex_after_slp_def ex_store_pres_def by code_simp
  note t = slp_clamps_and_keeps_cache [OF ex_store_pres_wf g]
  from t p have k: "variables ex_after_slp ''P'' = Some 0"
    and h0: "heap ex_after_slp ! 0 = heap ex_store_pres ! 0"
    by blast+
  from t obtain evs where tr: "trace ex_after_slp = trace ex_store_pres @ evs"
    and cl: "\<forall>ev \<in> set evs. slp_call_clamped ev"
    by blast
  from tr ne have "evs \<noteq> []" by auto
  with cl have "slp_call_clamped (last evs)" by simp
  with tr have e: "\<exists>evs. trace ex_after_slp = trace ex_store_pres @ evs \<and>
      slp_call_clamped (last evs)"
    by blast
  from t v nc obtain q0 Q k pha tka pa where
    c: "variables ex_after_slp ''QVAPOR'' = Some q0"
    and m: "setmask (heap ex_after_slp ! q0) (lt_scalar (heap ex_after_slp ! q0) (Num 0)) (Num 0) = Inr Q"
    and ev: "last (trace ex_after_slp) =
      Ev_call k [PArray pha, PArray tka, PArray pa, PArray (T (squeeze Q))]"
    by blast
  from c q have q0: "q0 = 4" by simp
  from ev l have tq: "T (squeeze Q) = \<lparr>shape = [2, 2], data = [Num 0, Num 0, Num 2, Num 0]\<rparr>"
    by simp
  from m q0 tq l q have "\<exists>Q. variables ex_after_slp ''QVAPOR'' = Some 4 \<and>
      setmask (heap ex_after_slp ! 4) (lt_scalar (heap ex_after_slp ! 4) (Num 0)) (Num 0) = Inr Q \<and>
      T (squeeze Q) = \<lparr>shape = [2, 2], data = [Num 0, Num 0, Num 2, Num 0]\<rparr> \<and>
      last (trace ex_after_slp) =
        Ev_call Dcomputeseaprs
          [PArray \<lparr>shape = [2, 2], data = [Num 50, Num 150, Num 50, Num 150]\<rparr>,
           PArray \<lparr>shape = [2, 2], data = [Num 300, Num 302, Num 301, Num 303]\<rparr>,
           PArray \<lparr>shape = [2, 2], data = [Num 11, Num 33, Num 22, Num 44]\<rparr>,
           PArray (T (squeeze Q))]"
    by (intro exI [of _ Q]) simp
  with ex_store_pres_wf p v nc g k h0 h4 e show ?thesis
    by simp
qed

end
